theory Spec2Isabelle
  imports Main "HOL-Library.Word"
begin

unbundle bit_operations_syntax

section \<open>Slug canonicalizer\<close>

text \<open>
  The fingerprint pattern of \<^verbatim>\<open>stripSlugRE\<close> is
  \<^verbatim>\<open>([_-][a-f0-9]{8}[.])\<close>: a separator, exactly eight lower-case
  hexadecimal characters and a literal period. Go strings are byte sequences and the
  pattern is pure ASCII, so a \<^typ>\<open>string\<close> (a list of 8-bit characters) models
  the argument byte for byte.
\<close>

definition isSep :: "char \<Rightarrow> bool" where
  "isSep c = (c = CHR ''_'' \<or> c = CHR ''-'')"

definition isHex :: "char \<Rightarrow> bool" where
  "isHex c = (c \<in> set ''abcdef0123456789'')"

text \<open>\<open>slugAt s\<close>: the pattern matches at the very start of \<open>s\<close> (a match is always
  ten bytes long).\<close>

definition slugAt :: "string \<Rightarrow> bool" where
  "slugAt s = (case s of [] \<Rightarrow> False
     | c # cs \<Rightarrow> isSep c \<and> 9 \<le> length cs \<and> list_all isHex (take 8 cs) \<and> cs ! 8 = CHR ''.'')"

text \<open>
  \<^verbatim>\<open>stripSlugRE.ReplaceAllString(in, ".")\<close>: scan from the left, replace every
  leftmost non-overlapping match by a period and copy every other byte.
\<close>

fun stripSlug :: "string \<Rightarrow> string" where
  "stripSlug [] = []"
| "stripSlug (c # cs) =
     (if slugAt (c # cs) then CHR ''.'' # stripSlug (drop 9 cs) else c # stripSlug cs)"

text \<open>A string holds two adjacent slugs when a separator and eight hexadecimal
  characters are directly followed by a full match of the pattern.\<close>

definition doubleSlugAt :: "string \<Rightarrow> bool" where
  "doubleSlugAt s = (case s of [] \<Rightarrow> False
     | c # cs \<Rightarrow> isSep c \<and> list_all isHex (take 8 cs) \<and> slugAt (drop 8 cs))"

fun hasDoubleSlug :: "string \<Rightarrow> bool" where
  "hasDoubleSlug [] = False"
| "hasDoubleSlug (c # cs) = (doubleSlugAt (c # cs) \<or> hasDoubleSlug cs)"

text \<open>A string holds a slug when the pattern matches somewhere in it.\<close>

fun hasSlug :: "string \<Rightarrow> bool" where
  "hasSlug [] = False"
| "hasSlug (c # cs) = (slugAt (c # cs) \<or> hasSlug cs)"

section \<open>Path helpers of the Go library, Unix flavour\<close>

definition isPathSeparator :: "char \<Rightarrow> bool" where
  "isPathSeparator c = (c = CHR ''/'')"

text \<open>\<^verbatim>\<open>filepath.Ext\<close> walks back from the end until a separator and returns
  the suffix starting at the first period it meets. The first argument is the part of the
  path not yet visited, reversed; the second is the suffix already walked over.\<close>

fun extScan :: "string \<Rightarrow> string \<Rightarrow> string" where
  "extScan [] acc = []"
| "extScan (c # r) acc =
     (if isPathSeparator c then []
      else if c = CHR ''.'' then c # acc
      else extScan r (c # acc))"

definition Ext :: "string \<Rightarrow> string" where
  "Ext p = extScan (rev p) []"

text \<open>\<^verbatim>\<open>filepath.Base\<close>: the last element of the path, after trailing
  separators are dropped.\<close>

definition Base :: "string \<Rightarrow> string" where
  "Base p =
     (if p = [] then ''.''
      else let q = rev (dropWhile isPathSeparator (rev p));
               e = rev (takeWhile (\<lambda>c. \<not> isPathSeparator c) (rev q))
           in if e = [] then ''/'' else e)"

text \<open>\<^verbatim>\<open>filepath.Split\<close>: directory part (with its final separator) and file part.\<close>

definition Split :: "string \<Rightarrow> string \<times> string" where
  "Split p =
     (let f = rev (takeWhile (\<lambda>c. \<not> isPathSeparator c) (rev p))
      in (take (length p - length f) p, f))"

definition HasSuffix :: "string \<Rightarrow> string \<Rightarrow> bool" where
  "HasSuffix s suffix =
     (length suffix \<le> length s \<and> drop (length s - length suffix) s = suffix)"

definition TrimSuffix :: "string \<Rightarrow> string \<Rightarrow> string" where
  "TrimSuffix s suffix =
     (if HasSuffix s suffix then take (length s - length suffix) s else s)"

text \<open>
  The file name the \<^verbatim>\<open>hash-rename\<close> command builds from the slug-free base name
  \<open>outNoSlug\<close> and the hexadecimal hash \<open>hhexval\<close>:
  \<^verbatim>\<open>fmt.Sprintf("%s-%s%s", outBaseNoExt, hhexval, outExt)\<close>.
\<close>

definition insertFingerprint :: "string \<Rightarrow> string \<Rightarrow> string" where
  "insertFingerprint outNoSlug hhexval =
     (let outExt = Ext outNoSlug;
          outBaseNoExt = TrimSuffix (Base outNoSlug) outExt
      in outBaseNoExt @ ''-'' @ hhexval @ outExt)"

section \<open>Content hash\<close>

text \<open>32-bit FNV-1a (\<^verbatim>\<open>fnv.New32a\<close>): offset basis 2166136261, prime 16777619,
  arithmetic modulo \<open>2^32\<close>.\<close>

definition fnv32a :: "string \<Rightarrow> 32 word" where
  "fnv32a b = foldl (\<lambda>h c. (h XOR of_nat (of_char c)) * 16777619) 2166136261 b"

definition hexDigit :: "nat \<Rightarrow> char" where
  "hexDigit n = ''0123456789abcdef'' ! (n mod 16)"

text \<open>\<^verbatim>\<open>%x\<close> of the four big-endian bytes of \<^verbatim>\<open>h.Sum(nil)\<close>: eight digits,
  leading zeros kept.\<close>

definition hex8 :: "32 word \<Rightarrow> string" where
  "hex8 w = map (\<lambda>i. hexDigit (unat (drop_bit (4 * i) w AND 15))) [7, 6, 5, 4, 3, 2, 1, 0]"

section \<open>The built-in page template\<close>

definition joinLines :: "string list \<Rightarrow> string" where
  "joinLines ls = (case ls of [] \<Rightarrow> [] | l # r \<Rightarrow> l @ concat (map (\<lambda>x. CHR 0x0A # x) r))"

text \<open>The embedded file \<^verbatim>\<open>default-page.tmpl\<close>, line by line; the file has no
  final newline.\<close>

definition defaultPageTmpl :: string where
  \<open>defaultPageTmpl = joinLines [
     ''<!doctype html>'',
     ''{{$prefix := ""}}'',
     ''{{$pageName := PageBaseName}}'',
     ''<html>'',
     ''<head>'',
     ''<meta charset="utf-8"/>'',
     ''<title>Vugu App</title>'',
     ''{{range FileNameListForExt ".css"}}'',
     ''<link rel="stylesheet" href="{{$prefix}}{{FileName .}}" />'',
     ''{{else}}'',
     ''{{if FileExists $pageName ".css"}}'',
     ''<link rel="stylesheet" href="{{$prefix}}{{FileName $pageName ".css"}}" />'',
     ''{{end}}'',
     ''{{end}}'',
     ''</head>'',
     ''<body>'',
     ''<div id="vugu_mount_point">'',
     ''<img style="position: absolute; top: 50%; left: 50%;" src="https://cdnjs.cloudflare.com/ajax/libs/galleriffic/2.0.1/css/loader.gif">'',
     ''</div>'',
     ''<script src="https://cdn.jsdelivr.net/npm/text-encoding@0.7.0/lib/encoding.min.js"></script> <!-- MS Edge polyfill -->'',
     ''{{range FileNameListForExt ".js"}}'',
     ''<script src="{{$prefix}}{{FileName .}}"></script>'',
     ''{{else}}'',
     ''<script src="{{$prefix}}{{FileName "wasm_exec.js"}}"></script>'',
     ''{{if FileExists $pageName ".js"}}'',
     ''<script src="{{$prefix}}{{FileName $pageName ".js"}}"></script>'',
     ''{{end}}'',
     ''{{end}}'',
     ''<script>'',
     ''var wasmSupported = (typeof WebAssembly === "object");'',
     ''if (wasmSupported) {'',
     ''	if (!WebAssembly.instantiateStreaming) { // polyfill'',
     ''		WebAssembly.instantiateStreaming = async (resp, importObject) => {'',
     ''			const source = await (await resp).arrayBuffer();'',
     ''			return await WebAssembly.instantiate(source, importObject);'',
     ''		};'',
     ''	}'',
     ''	var wasmReq = fetch("{{$prefix}}{{FileName $pageName ".wasm"}}").then(function(res) {'',
     ''		if (res.ok) {'',
     ''			const go = new Go();'',
     ''			WebAssembly.instantiateStreaming(res, go.importObject).then((result) => {'',
     ''				go.run(result.instance);'',
     ''			});		'',
     ''		} else {'',
     ''			res.text().then(function(txt) {'',
     ''				var el = document.getElementById("vugu_mount_point");'',
     ''				el.style = 'font-family: monospace; background: black; color: red; padding: 10px';'',
     ''				el.innerText = txt;'',
     ''			})'',
     ''		}'',
     ''	})'',
     ''} else {'',
     ''	document.getElementById("vugu_mount_point").innerHTML = 'This application requires WebAssembly support.  Please upgrade your browser.';'',
     ''}'',
     ''</script>'',
     ''</body>'',
     ''</html>'']\<close>

section \<open>Services outside the repository\<close>

text \<open>
  An \<^verbatim>\<open>error\<close> of the \<^verbatim>\<open>os\<close> package; only the test
  \<^verbatim>\<open>errors.Is(err, fs.ErrNotExist)\<close> is ever applied to it. An \<^verbatim>\<open>error\<close>
  variable is an \<open>oserr option\<close>, \<open>None\<close> being \<^verbatim>\<open>nil\<close>.
\<close>

datatype oserr = ErrNotExist | ErrOther string

definition isNotExist :: "oserr option \<Rightarrow> bool" where
  "isNotExist err = (err = Some ErrNotExist)"

text \<open>
  A \<^verbatim>\<open>time.Time\<close> is an instant, counted here in nanoseconds from the zero
  \<^verbatim>\<open>Time\<close> (January 1 of year 1, UTC); earlier instants are negative.
\<close>

definition IsZero :: "int \<Rightarrow> bool" where
  "IsZero t = (t = 0)"

definition After :: "int \<Rightarrow> int \<Rightarrow> bool" where
  "After t u = (u < t)"

text \<open>
  The template library is a collaborator. What it does with a parsed document is a
  strategy that can only call the three bound functions and look at what they return:
  a tree whose leaves are the end of the execution (an error or the rendered bytes).
\<close>

datatype tres = TErr string | TOut string

datatype tprog =
    TDone tres
  | TPageBaseName "string \<Rightarrow> tprog"
  | TFileName "string list" "string \<Rightarrow> tprog"
  | TFileExists "string list" "bool \<Rightarrow> tprog"

text \<open>What the directory watcher reports: a failed registration, the events logged
  before the first listener completes, or no event at all.\<close>

datatype watchres = WatchFail oserr | WatchEvents "string list" | WatchForever

record env =
  osStat :: "string \<Rightarrow> oserr + int"
  osReadFile :: "string \<Rightarrow> oserr + string"
  osWriteFile :: "string \<Rightarrow> string \<Rightarrow> oserr option"
  osRename :: "string \<Rightarrow> string \<Rightarrow> oserr option"
  filepathJoin :: "string \<Rightarrow> string \<Rightarrow> string"
  notifyWatch :: "string list \<Rightarrow> watchres"
  tmplEngine :: "string \<Rightarrow> string + tprog"

section \<open>Template parsing: the check for unbound functions\<close>

text \<open>
  \<^verbatim>\<open>Parse\<close> rejects a document in which an action names a function that is
  neither built in nor bound by \<^verbatim>\<open>Funcs\<close> ("function ... not defined"). The
  scanner below follows the library's lexer far enough to find the identifiers of the
  actions: it skips text, comments, quoted strings, character constants, fields, variables
  and numbers. Everything else about parsing is left to \<open>tmplEngine\<close>.
\<close>

datatype lexmode =
    MText | MLeft | MStart | MSlash | MComment | MCommentStar | MAction | MRight
  | MQuote | MQuoteEsc | MRaw | MChar | MCharEsc | MWord | MIdent string

definition isDigit :: "char \<Rightarrow> bool" where
  "isDigit c = (c \<in> set ''0123456789'')"

definition isAlphaNumeric :: "char \<Rightarrow> bool" where
  "isAlphaNumeric c =
     (c = CHR ''_'' \<or> isDigit c
      \<or> c \<in> set ''abcdefghijklmnopqrstuvwxyz'' \<or> c \<in> set ''ABCDEFGHIJKLMNOPQRSTUVWXYZ'')"

text \<open>The mode entered by reading \<open>c\<close> at a token boundary inside an action.\<close>

definition actStep :: "char \<Rightarrow> lexmode" where
  "actStep c =
     (if c = CHR ''}'' then MRight
      else if c = CHR 0x22 then MQuote
      else if c = CHR 0x60 then MRaw
      else if c = CHR 0x27 then MChar
      else if c = CHR ''.'' \<or> c = CHR ''$'' \<or> c = CHR ''+'' \<or> c = CHR ''-'' \<or> isDigit c then MWord
      else if isAlphaNumeric c then MIdent [c]
      else MAction)"

definition lexNext :: "lexmode \<Rightarrow> char \<Rightarrow> lexmode" where
  "lexNext m c =
     (case m of
        MText \<Rightarrow> if c = CHR ''{'' then MLeft else MText
      | MLeft \<Rightarrow> if c = CHR ''{'' then MStart else MText
      | MStart \<Rightarrow> if c = CHR ''/'' then MSlash
                  else if c = CHR ''-'' \<or> c = CHR '' '' then MStart else actStep c
      | MSlash \<Rightarrow> if c = CHR ''*'' then MComment else actStep c
      | MComment \<Rightarrow> if c = CHR ''*'' then MCommentStar else MComment
      | MCommentStar \<Rightarrow> if c = CHR ''/'' then MAction
                        else if c = CHR ''*'' then MCommentStar else MComment
      | MAction \<Rightarrow> actStep c
      | MRight \<Rightarrow> if c = CHR ''}'' then MText else actStep c
      | MQuote \<Rightarrow> if c = CHR 0x5C then MQuoteEsc else if c = CHR 0x22 then MAction else MQuote
      | MQuoteEsc \<Rightarrow> MQuote
      | MRaw \<Rightarrow> if c = CHR 0x60 then MAction else MRaw
      | MChar \<Rightarrow> if c = CHR 0x5C then MCharEsc else if c = CHR 0x27 then MAction else MChar
      | MCharEsc \<Rightarrow> MChar
      | MWord \<Rightarrow> if isAlphaNumeric c then MWord else actStep c
      | MIdent acc \<Rightarrow> if isAlphaNumeric c then MIdent (c # acc) else actStep c)"

text \<open>The identifier completed when \<open>c\<close> is read, if any.\<close>

definition lexEmit :: "lexmode \<Rightarrow> char \<Rightarrow> string list" where
  "lexEmit m c = (case m of MIdent acc \<Rightarrow> if isAlphaNumeric c then [] else [rev acc] | _ \<Rightarrow> [])"

fun lexIdents :: "lexmode \<Rightarrow> string \<Rightarrow> string list" where
  "lexIdents m [] = (case m of MIdent acc \<Rightarrow> [rev acc] | _ \<Rightarrow> [])"
| "lexIdents m (c # cs) = lexEmit m c @ lexIdents (lexNext m c) cs"

definition tmplKeywords :: "string list" where
  "tmplKeywords = [''block'', ''break'', ''continue'', ''define'', ''else'', ''end'', ''if'',
     ''range'', ''nil'', ''template'', ''with'', ''true'', ''false'']"

definition tmplBuiltins :: "string list" where
  "tmplBuiltins = [''and'', ''call'', ''html'', ''index'', ''slice'', ''js'', ''len'', ''not'',
     ''or'', ''print'', ''printf'', ''println'', ''urlquery'', ''eq'', ''ge'', ''gt'', ''le'',
     ''lt'', ''ne'']"

definition undefinedFunc :: "string list \<Rightarrow> string \<Rightarrow> string option" where
  "undefinedFunc funcs doc =
     find (\<lambda>f. f \<notin> set (tmplKeywords @ tmplBuiltins @ funcs)) (lexIdents MText doc)"

definition tmplParse :: "env \<Rightarrow> string list \<Rightarrow> string \<Rightarrow> string + tprog" where
  "tmplParse ev funcs doc =
     (case undefinedFunc funcs doc of
        Some f \<Rightarrow> Inl (''function not defined: '' @ f)
      | None \<Rightarrow> tmplEngine ev doc)"

section \<open>Manifest\<close>

record fmapEntry =
  name :: string
  path :: string
  modTime :: int

type_synonym fmap = "string \<rightharpoonup> fmapEntry"

text \<open>Indexing a Go map with a missing key yields the zero value of the element type.\<close>

definition zeroEntry :: fmapEntry where
  "zeroEntry = \<lparr>name = [], path = [], modTime = 0\<rparr>"

definition mapIndex :: "fmap \<Rightarrow> string \<Rightarrow> fmapEntry" where
  "mapIndex m key = (case m key of None \<Rightarrow> zeroEntry | Some fme \<Rightarrow> fme)"

datatype failure =
    FailErr oserr
  | FailInputFile string oserr
  | FailTmpl string
  | FailNoWatchDirs
  | FailNoOut
  | FailNoCommand

datatype logmsg =
    LogRenaming string string
  | LogEvent string
  | LogTmplExists string
  | LogWroteTmpl string
  | LogSkipMissing string
  | LogFmap fmap
  | LogNoIn
  | LogFileName string string
  | LogFileExists string bool
  | LogFatal failure
  | LogPanic oserr

text \<open>The body of the loop over \<^verbatim>\<open>*pageTmplFiles\<close> for a file \<open>fn\<close> whose
  \<^verbatim>\<open>os.Stat\<close> succeeded with modification time \<open>mt\<close>.\<close>

definition feed :: "string \<Rightarrow> int \<Rightarrow> fmap \<Rightarrow> fmap" where
  "feed fn mt m =
     (let nm = Base fn;
          key = stripSlug nm;
          fme = mapIndex m key
      in if IsZero (modTime fme) \<or> After mt (modTime fme)
         then m(key \<mapsto> \<lparr>name = nm, path = fn, modTime = mt\<rparr>)
         else m)"

text \<open>The loop itself: \<open>Inl\<close> is \<^verbatim>\<open>log.Fatalf\<close> (with the log written so far),
  \<open>Inr\<close> the finished map and the log.\<close>

fun fmapLoop :: "env \<Rightarrow> string list \<Rightarrow> fmap \<Rightarrow> logmsg list
    \<Rightarrow> (logmsg list \<times> failure) + (fmap \<times> logmsg list)" where
  "fmapLoop ev [] m lg = Inr (m, lg)"
| "fmapLoop ev (fn # fns) m lg =
     (case osStat ev fn of
        Inl err \<Rightarrow>
          if isNotExist (Some err) then fmapLoop ev fns m (lg @ [LogSkipMissing fn])
          else Inl (lg, FailInputFile fn err)
      | Inr mt \<Rightarrow> fmapLoop ev fns (feed fn mt m) lg)"

section \<open>Lookup functions bound into the template\<close>

text \<open>The variables the three closures of the \<^verbatim>\<open>FuncMap\<close> capture, and the log
  they write to.\<close>

record pstate =
  s_fmap :: fmap
  s_pageBaseName :: string
  s_log :: "logmsg list"

definition PageBaseName :: "pstate \<Rightarrow> string \<times> pstate" where
  "PageBaseName s = (s_pageBaseName s, s)"

definition FileName :: "bool \<Rightarrow> string list \<Rightarrow> pstate \<Rightarrow> string \<times> pstate" where
  "FileName verbose parts s =
     (let key = concat parts;
          ret = (case s_fmap s key of None \<Rightarrow> [] | Some fme \<Rightarrow> name fme)
      in (ret, if verbose then s\<lparr>s_log := s_log s @ [LogFileName key ret]\<rparr> else s))"

definition FileExists :: "bool \<Rightarrow> string list \<Rightarrow> pstate \<Rightarrow> bool \<times> pstate" where
  "FileExists verbose parts s =
     (let key = concat parts;
          ret = (case s_fmap s key of None \<Rightarrow> False | Some fme \<Rightarrow> True)
      in (ret, if verbose then s\<lparr>s_log := s_log s @ [LogFileExists key ret]\<rparr> else s))"

definition funcMapNames :: "string list" where
  "funcMapNames = [''PageBaseName'', ''FileName'', ''FileExists'']"

text \<open>\<^verbatim>\<open>tmpl.ExecuteTemplate\<close>: the library's strategy run against the closures.\<close>

primrec execT :: "bool \<Rightarrow> tprog \<Rightarrow> pstate \<Rightarrow> tres \<times> pstate" where
  "execT verbose (TDone r) s = (r, s)"
| "execT verbose (TPageBaseName k) s =
     (case PageBaseName s of (r, s') \<Rightarrow> execT verbose (k r) s')"
| "execT verbose (TFileName parts k) s =
     (case FileName verbose parts s of (r, s') \<Rightarrow> execT verbose (k r) s')"
| "execT verbose (TFileExists parts k) s =
     (case FileExists verbose parts s of (r, s') \<Rightarrow> execT verbose (k r) s')"

section \<open>Commands\<close>

text \<open>
  What one invocation does, as far as the outside can see: how it ends, what it prints on
  standard output, which calls change the file system, and the diagnostic lines.
  \<^verbatim>\<open>log.Fatal\<close> logs and exits with code 1, a \<^verbatim>\<open>panic\<close> ends the process with
  code 2, \<open>NoReturn\<close> is a watcher that blocks for ever.
\<close>

datatype status = Exit0 | ExitFatal | ExitPanic | NoReturn

datatype fsop = OpWriteFile string string | OpRename string string

record outcome =
  status :: status
  stdout :: string
  fsops :: "fsop list"
  logs :: "logmsg list"

definition exitCode :: "status \<Rightarrow> nat option" where
  "exitCode st = (case st of Exit0 \<Rightarrow> Some 0 | ExitFatal \<Rightarrow> Some 1 | ExitPanic \<Rightarrow> Some 2
     | NoReturn \<Rightarrow> None)"

definition fatal :: "fsop list \<Rightarrow> logmsg list \<Rightarrow> failure \<Rightarrow> outcome" where
  "fatal ops lg f = \<lparr>status = ExitFatal, stdout = [], fsops = ops, logs = lg @ [LogFatal f]\<rparr>"

definition panic :: "fsop list \<Rightarrow> logmsg list \<Rightarrow> oserr \<Rightarrow> outcome" where
  "panic ops lg e = \<lparr>status = ExitPanic, stdout = [], fsops = ops, logs = lg @ [LogPanic e]\<rparr>"

definition success :: "string \<Rightarrow> fsop list \<Rightarrow> logmsg list \<Rightarrow> outcome" where
  "success out ops lg = \<lparr>status = Exit0, stdout = out, fsops = ops, logs = lg\<rparr>"

record pageTmplArgs =
  pageTmplIn :: string
  pageTmplOut :: string
  pageTmplTmplOut :: string
  pageTmplForce :: bool
  pageTmplFiles :: "string list"

datatype command =
    CmdHash string
  | CmdHashRename string string
  | CmdWatch "string list"
  | CmdPageTmpl pageTmplArgs
  | CmdNone

record invocation =
  verbose :: bool
  cmd :: command

definition hashCmd :: "env \<Rightarrow> string \<Rightarrow> outcome" where
  "hashCmd ev hashIn =
     (case osReadFile ev hashIn of
        Inl err \<Rightarrow> panic [] [] err
      | Inr b \<Rightarrow> success (hex8 (fnv32a b) @ [CHR 0x0A]) [] [])"

definition hashRenameCmd :: "env \<Rightarrow> string \<Rightarrow> string \<Rightarrow> outcome" where
  "hashRenameCmd ev inFname hashRenameOut =
     (case osReadFile ev inFname of
        Inl err \<Rightarrow> panic [] [] err
      | Inr b \<Rightarrow>
          let hhexval = hex8 (fnv32a b);
              inp = (if hashRenameOut = [] then inFname else hashRenameOut);
              pathPrefix = fst (Split inp);
              inBaseName = snd (Split inp);
              outNoSlug = stripSlug inBaseName;
              outFname = filepathJoin ev pathPrefix (insertFingerprint outNoSlug hhexval);
              lg = [LogRenaming inFname outFname]
          in (case osRename ev inFname outFname of
                Some err \<Rightarrow> panic [OpRename inFname outFname] lg err
              | None \<Rightarrow> success [] [OpRename inFname outFname] lg))"

definition watchCmd :: "env \<Rightarrow> string list \<Rightarrow> outcome" where
  "watchCmd ev watchDirs =
     (if watchDirs = [] then fatal [] [] FailNoWatchDirs
      else (case notifyWatch ev watchDirs of
              WatchFail err \<Rightarrow> fatal [] [] (FailErr err)
            | WatchEvents es \<Rightarrow> success [] [] (map LogEvent es)
            | WatchForever \<Rightarrow> \<lparr>status = NoReturn, stdout = [], fsops = [], logs = []\<rparr>))"

text \<open>
  The \<^verbatim>\<open>--tmpl-out\<close> block of \<^verbatim>\<open>page-tmpl\<close>. \<open>err\<close> is the variable declared
  by \<^verbatim>\<open>var err error\<close> before the block; the result of \<^verbatim>\<open>os.Stat\<close> goes to a
  second variable of the same name that \<^verbatim>\<open>:=\<close> declares inside the inner
  \<^verbatim>\<open>if\<close>, so the two tests after that \<^verbatim>\<open>if\<close> read the outer one.
\<close>

definition tmplOutBlock :: "env \<Rightarrow> pageTmplArgs \<Rightarrow> outcome" where
  "tmplOutBlock ev a =
     (let err = (None :: oserr option);
          p = pageTmplTmplOut a;
          found = (\<not> pageTmplForce a \<and> (case osStat ev p of Inl err' \<Rightarrow> False | Inr st \<Rightarrow> True))
      in if found then success [] [] [LogTmplExists p]
         else let err = (if isNotExist err then None else err)
              in (case err of
                    Some e \<Rightarrow> fatal [] [] (FailErr e)
                  | None \<Rightarrow>
                      (case osWriteFile ev p defaultPageTmpl of
                         Some e \<Rightarrow> fatal [OpWriteFile p defaultPageTmpl] [] (FailErr e)
                       | None \<Rightarrow> success [] [OpWriteFile p defaultPageTmpl] [LogWroteTmpl p])))"

text \<open>
  The same block in the earlier variant of the program (\<^verbatim>\<open>vgutil-main.go\<close>), which
  has no \<^verbatim>\<open>--force\<close> flag: there \<^verbatim>\<open>os.Stat\<close> is called directly in the block, and
  the two tests read the error it returned. \<open>doc\<close> is the template built into that
  variant.
\<close>

definition tmplOutBlockEarlier :: "env \<Rightarrow> string \<Rightarrow> string \<Rightarrow> outcome" where
  "tmplOutBlockEarlier ev doc p =
     (case osStat ev p of
        Inr st \<Rightarrow> success [] [] [LogTmplExists p]
      | Inl e \<Rightarrow>
          (let err = (if isNotExist (Some e) then None else Some e)
           in (case err of
                 Some e' \<Rightarrow> fatal [] [] (FailErr e')
               | None \<Rightarrow>
                   (case osWriteFile ev p doc of
                      Some e' \<Rightarrow> fatal [OpWriteFile p doc] [] (FailErr e')
                    | None \<Rightarrow> success [] [OpWriteFile p doc] [LogWroteTmpl p]))))"

text \<open>Execution of the parsed template and the write of \<^verbatim>\<open>--out\<close>.\<close>

definition render :: "bool \<Rightarrow> env \<Rightarrow> pageTmplArgs \<Rightarrow> pstate \<Rightarrow> tprog \<Rightarrow> outcome" where
  "render vb ev a s prog =
     (case execT vb prog s of
        (TErr e, s') \<Rightarrow> fatal [] (s_log s') (FailTmpl e)
      | (TOut b, s') \<Rightarrow>
          if pageTmplOut a = [] then fatal [] (s_log s') FailNoOut
          else (case osWriteFile ev (pageTmplOut a) b of
                  Some e \<Rightarrow> fatal [OpWriteFile (pageTmplOut a) b] (s_log s') (FailErr e)
                | None \<Rightarrow> success [] [OpWriteFile (pageTmplOut a) b] (s_log s')))"

text \<open>What \<^verbatim>\<open>page-tmpl\<close> does once the loop over the files has built the map \<open>m\<close>
  and written the log \<open>lg0\<close>: the dump of the map under \<^verbatim>\<open>--verbose\<close>, the choice
  and parsing of the template, its execution and the write.\<close>

definition renderPage :: "bool \<Rightarrow> env \<Rightarrow> pageTmplArgs \<Rightarrow> fmap \<Rightarrow> logmsg list \<Rightarrow> outcome" where
  "renderPage vb ev a m lg0 =
     (let lg = (if vb then lg0 @ [LogFmap m] else lg0)
      in if pageTmplIn a = []
         then (case tmplParse ev funcMapNames defaultPageTmpl of
                 Inl e \<Rightarrow> fatal [] (lg @ [LogNoIn]) (FailTmpl e)
               | Inr prog \<Rightarrow>
                   render vb ev a
                     \<lparr>s_fmap = m, s_pageBaseName = ''index'', s_log = lg @ [LogNoIn]\<rparr> prog)
         else (let pageBaseName = TrimSuffix (Base (pageTmplIn a)) (Ext (pageTmplIn a))
               in (case osReadFile ev (pageTmplIn a) of
                     Inl e \<Rightarrow> fatal [] lg (FailErr e)
                   | Inr b \<Rightarrow>
                       (case tmplParse ev funcMapNames b of
                          Inl e \<Rightarrow> fatal [] lg (FailTmpl e)
                        | Inr prog \<Rightarrow>
                            render vb ev a
                              \<lparr>s_fmap = m, s_pageBaseName = pageBaseName, s_log = lg\<rparr> prog))))"

definition pageTmplCmd :: "bool \<Rightarrow> env \<Rightarrow> pageTmplArgs \<Rightarrow> outcome" where
  "pageTmplCmd vb ev a =
     (if pageTmplTmplOut a \<noteq> [] then tmplOutBlock ev a
      else (case fmapLoop ev (pageTmplFiles a) Map.empty [] of
              Inl (lg, f) \<Rightarrow> fatal [] lg f
            | Inr (m, lg0) \<Rightarrow> renderPage vb ev a m lg0))"

definition main :: "env \<Rightarrow> invocation \<Rightarrow> outcome" where
  "main ev args =
     (case cmd args of
        CmdHash hashIn \<Rightarrow> hashCmd ev hashIn
      | CmdHashRename hashRenameIn hashRenameOut \<Rightarrow> hashRenameCmd ev hashRenameIn hashRenameOut
      | CmdWatch watchDirs \<Rightarrow> watchCmd ev watchDirs
      | CmdPageTmpl a \<Rightarrow> pageTmplCmd (verbose args) ev a
      | CmdNone \<Rightarrow> fatal [] [] FailNoCommand)"

text \<open>What an invocation shows apart from its diagnostic lines.\<close>

definition observable :: "outcome \<Rightarrow> status \<times> string \<times> fsop list" where
  "observable oc = (status oc, stdout oc, fsops oc)"

text \<open>A log line that only \<^verbatim>\<open>--verbose\<close> produces.\<close>

definition verboseLine :: "logmsg \<Rightarrow> bool" where
  "verboseLine l = (case l of LogFmap m \<Rightarrow> True | LogFileName k r \<Rightarrow> True
     | LogFileExists k r \<Rightarrow> True | _ \<Rightarrow> False)"

section \<open>Vocabulary of the manifest properties\<close>

text \<open>A file is a candidate for a logical key when \<^verbatim>\<open>os.Stat\<close> succeeds on it and
  its base name canonicalizes to the key; \<open>candidateEntry\<close> is the entry the loop builds
  from it.\<close>

definition candidate :: "env \<Rightarrow> string \<Rightarrow> string \<Rightarrow> bool" where
  "candidate ev key fn =
     (case osStat ev fn of Inl err \<Rightarrow> False | Inr mt \<Rightarrow> stripSlug (Base fn) = key)"

definition candidateEntry :: "env \<Rightarrow> string \<Rightarrow> fmapEntry" where
  "candidateEntry ev fn =
     (case osStat ev fn of Inl err \<Rightarrow> zeroEntry
      | Inr mt \<Rightarrow> \<lparr>name = Base fn, path = fn, modTime = mt\<rparr>)"

text \<open>A path is missing when \<^verbatim>\<open>os.Stat\<close> fails on it with "not exist".\<close>

definition missing :: "env \<Rightarrow> string \<Rightarrow> bool" where
  "missing ev fn = (osStat ev fn = Inl ErrNotExist)"

text \<open>\<^verbatim>\<open>os.Stat\<close> fails on the path for a reason other than "not exist".\<close>

definition statFatal :: "env \<Rightarrow> string \<Rightarrow> bool" where
  "statFatal ev fn = (case osStat ev fn of Inl err \<Rightarrow> err \<noteq> ErrNotExist | Inr mt \<Rightarrow> False)"

text \<open>The result of the loop without its log: the failure, or the finished manifest.\<close>

definition loopResult :: "(logmsg list \<times> failure) + (fmap \<times> logmsg list) \<Rightarrow> failure + fmap" where
  "loopResult r = (case r of Inl (lg, f) \<Rightarrow> Inl f | Inr (m, lg) \<Rightarrow> Inr m)"

text \<open>The files give the key \<open>k\<close> no candidate at the zero instant together with a
  candidate from before it.\<close>

definition zeroSafe :: "env \<Rightarrow> string \<Rightarrow> string set \<Rightarrow> bool" where
  "zeroSafe ev k A =
     (\<forall>f \<in> A. candidate ev k f \<longrightarrow> modTime (candidateEntry ev f) = 0 \<longrightarrow>
        (\<forall>g \<in> A. candidate ev k g \<longrightarrow> 0 \<le> modTime (candidateEntry ev g)))"

text \<open>Newest wins for one key \<open>k\<close>, over the set \<open>S\<close> of the files already read:
  no entry while no candidate was seen; otherwise the entry comes from a candidate in
  \<open>S\<close> and no candidate in \<open>S\<close> is newer.\<close>

definition newest :: "env \<Rightarrow> string \<Rightarrow> string set \<Rightarrow> fmap \<Rightarrow> bool" where
  "newest ev k S m =
     (case m k of
        None \<Rightarrow> \<forall>fn \<in> S. \<not> candidate ev k fn
      | Some e \<Rightarrow> (\<exists>fn \<in> S. candidate ev k fn \<and> e = candidateEntry ev fn)
          \<and> (\<forall>fn \<in> S. candidate ev k fn \<longrightarrow> modTime (candidateEntry ev fn) \<le> modTime e))"

section \<open>A concrete environment\<close>

text \<open>\<open>statTable\<close> answers \<^verbatim>\<open>os.Stat\<close> from a table of modification times; a path
  that is not in the table does not exist. \<open>testEnv\<close> completes it to an environment in
  which nothing can be read, every write and rename succeeds, paths are joined by
  juxtaposition, no event is ever seen and the engine accepts only the empty document,
  which it renders as the empty output.\<close>

definition statTable :: "(string \<times> int) list \<Rightarrow> string \<Rightarrow> oserr + int" where
  "statTable tbl p = (case map_of tbl p of None \<Rightarrow> Inl ErrNotExist | Some mt \<Rightarrow> Inr mt)"

definition testEnv :: "(string \<Rightarrow> oserr + int) \<Rightarrow> env" where
  "testEnv st =
     \<lparr>osStat = st,
      osReadFile = (\<lambda>p. Inl ErrNotExist),
      osWriteFile = (\<lambda>p b. None),
      osRename = (\<lambda>old new. None),
      filepathJoin = (\<lambda>d f. d @ f),
      notifyWatch = (\<lambda>ds. WatchForever),
      tmplEngine = (\<lambda>doc. if doc = [] then Inr (TDone (TOut [])) else Inl ''syntax error'')\<rparr>"

text \<open>An environment with one asset and one template file; the engine knows the one
  document of that file, which it executes as a single call of \<open>FileName\<close> whose result
  is the output.\<close>

definition demoDoc :: string where
  \<open>demoDoc = ''{{FileName "app" ".css"}}''\<close>

definition demoEnv :: env where
  "demoEnv =
     \<lparr>osStat = statTable [(''public/app-1a2b3c4d.css'', 3)],
      osReadFile = (\<lambda>p. if p = ''page.tmpl'' then Inr demoDoc else Inl ErrNotExist),
      osWriteFile = (\<lambda>p b. None),
      osRename = (\<lambda>old new. None),
      filepathJoin = (\<lambda>d f. d @ f),
      notifyWatch = (\<lambda>ds. WatchForever),
      tmplEngine = (\<lambda>doc. if doc = demoDoc
         then Inr (TFileName [''app'', ''.css''] (\<lambda>r. TDone (TOut r)))
         else Inl ''syntax error'')\<rparr>"

definition demoArgs :: pageTmplArgs where
  "demoArgs =
     \<lparr>pageTmplIn = ''page.tmpl'', pageTmplOut = ''index.html'', pageTmplTmplOut = [],
      pageTmplForce = False, pageTmplFiles = [''public/app-1a2b3c4d.css'']\<rparr>"

section \<open>Properties of the canonicalizer\<close>

lemma slugAt_Cons:
  "slugAt (c # cs) = (isSep c \<and> 9 \<le> length cs \<and> list_all isHex (take 8 cs) \<and> cs ! 8 = CHR ''.'')"
  by (simp add: slugAt_def)

lemma slugAt_Nil [simp]: "\<not> slugAt []"
  by (simp add: slugAt_def)

lemma isHex_not_dot: "isHex c \<Longrightarrow> c \<noteq> CHR ''.''"
  by (auto simp: isHex_def)

lemma isSep_not_dot: "isSep c \<Longrightarrow> c \<noteq> CHR ''.''"
  by (auto simp: isSep_def)

lemma isSep_not_hex: "isSep c \<Longrightarrow> \<not> isHex c"
  by (auto simp: isSep_def isHex_def)

lemma length_stripSlug: "length (stripSlug xs) \<le> length xs"
  by (induction xs rule: stripSlug.induct) auto

lemma stripSlug_slug_shorter: "slugAt (c # cs) \<Longrightarrow> length (stripSlug (c # cs)) < length (c # cs)"
proof -
  assume s: "slugAt (c # cs)"
  have "length (stripSlug (drop 9 cs)) \<le> length cs - 9"
    using length_stripSlug [of "drop 9 cs"] by simp
  moreover have "9 \<le> length cs" using s by (simp add: slugAt_Cons)
  ultimately show ?thesis using s by simp
qed

lemma stripSlug_fixed_Cons:
  assumes "stripSlug (c # cs) = c # cs"
  shows "\<not> slugAt (c # cs)" and "stripSlug cs = cs"
proof -
  show n: "\<not> slugAt (c # cs)"
    using assms stripSlug_slug_shorter [of c cs] by auto
  show "stripSlug cs = cs" using assms n by simp
qed

lemma stripSlug_no_dot: "CHR ''.'' \<notin> set xs \<Longrightarrow> stripSlug xs = xs"
proof (induction xs)
  case Nil
  show ?case by simp
next
  case (Cons c cs)
  have "\<not> slugAt (c # cs)"
  proof
    assume "slugAt (c # cs)"
    then have "9 \<le> length cs" "cs ! 8 = CHR ''.''" by (simp_all add: slugAt_Cons)
    then have "8 < length cs" and "cs ! 8 = CHR ''.''" by simp_all
    then have "CHR ''.'' \<in> set cs" using nth_mem [of 8 cs] by simp
    with Cons.prems show False by simp
  qed
  with Cons show ?case by simp
qed

lemma stripSlug_prefix:
  "n \<le> length (stripSlug cs) \<Longrightarrow> \<forall>c \<in> set (take n (stripSlug cs)). c \<noteq> CHR ''.'' \<Longrightarrow>
   stripSlug cs = take n cs @ stripSlug (drop n cs) \<and> n \<le> length cs"
proof (induction n arbitrary: cs)
  case 0
  show ?case by simp
next
  case (Suc n)
  show ?case
  proof (cases cs)
    case Nil
    with Suc.prems show ?thesis by simp
  next
    case (Cons d ds)
    have ns: "\<not> slugAt (d # ds)"
    proof
      assume "slugAt (d # ds)"
      with Suc.prems Cons show False by simp
    qed
    with Suc.prems Cons have "n \<le> length (stripSlug ds)"
      and "\<forall>c \<in> set (take n (stripSlug ds)). c \<noteq> CHR ''.''" by simp_all
    from Suc.IH [OF this] show ?thesis using Cons ns by simp
  qed
qed

lemma slugAt_after_strip:
  assumes n1: "\<not> slugAt (c # cs)" and n2: "\<not> doubleSlugAt (c # cs)"
  shows "\<not> slugAt (c # stripSlug cs)"
proof
  assume s: "slugAt (c # stripSlug cs)"
  let ?S = "stripSlug cs"
  from s have sep: "isSep c" and len: "9 \<le> length ?S"
    and hex: "list_all isHex (take 8 ?S)" and dot: "?S ! 8 = CHR ''.''"
    by (simp_all add: slugAt_Cons)
  have "\<forall>x \<in> set (take 8 ?S). x \<noteq> CHR ''.''"
    using hex isHex_not_dot by (auto simp: list_all_iff)
  with len stripSlug_prefix [of 8 cs]
  have dec: "?S = take 8 cs @ stripSlug (drop 8 cs)" and l8: "8 \<le> length cs" by simp_all
  have t8: "take 8 ?S = take 8 cs"
    using l8 by (subst dec) simp
  have hexcs: "list_all isHex (take 8 cs)" using hex t8 by simp
  have nth8: "?S ! 8 = stripSlug (drop 8 cs) ! 0"
    using l8 by (subst dec) (simp add: nth_append)
  have lenr: "1 \<le> length (stripSlug (drop 8 cs))"
  proof -
    have "length ?S = length (take 8 cs) + length (stripSlug (drop 8 cs))"
      by (subst dec) simp
    with len l8 show ?thesis by simp
  qed
  show False
  proof (cases "drop 8 cs")
    case Nil
    with lenr show False by simp
  next
    case (Cons e es)
    show False
    proof (cases "slugAt (e # es)")
      case True
      with sep hexcs Cons have "doubleSlugAt (c # cs)" by (simp add: doubleSlugAt_def)
      with n2 show False by simp
    next
      case False
      with Cons nth8 dot have "e = CHR ''.''" by simp
      have l9: "8 < length cs"
      proof (rule ccontr)
        assume "\<not> 8 < length cs"
        then have "drop 8 cs = []" by simp
        with Cons show False by simp
      qed
      have "cs ! 8 = hd (drop 8 cs)" using l9 by (simp add: hd_drop_conv_nth)
      with Cons \<open>e = CHR ''.''\<close> l9 have "cs ! 8 = CHR ''.''" and "9 \<le> length cs" by simp_all
      with sep hexcs have "slugAt (c # cs)" by (simp add: slugAt_Cons)
      with n1 show False by simp
    qed
  qed
qed

lemma hasDoubleSlug_drop: "\<not> hasDoubleSlug xs \<Longrightarrow> \<not> hasDoubleSlug (drop n xs)"
proof (induction xs arbitrary: n)
  case Nil show ?case by simp
next
  case (Cons a xs)
  then show ?case by (cases n) auto
qed

lemma stripSlug_idem:
  "\<not> hasDoubleSlug x \<Longrightarrow> stripSlug (stripSlug x) = stripSlug x"
proof (induction x rule: stripSlug.induct)
  case 1
  show ?case by simp
next
  case (2 c cs)
  show ?case
  proof (cases "slugAt (c # cs)")
    case True
    have "\<not> hasDoubleSlug (drop 9 cs)" using "2.prems" hasDoubleSlug_drop [of cs 9] by simp
    with "2.IH"(1) True have ih: "stripSlug (stripSlug (drop 9 cs)) = stripSlug (drop 9 cs)" by simp
    have "\<not> slugAt (CHR ''.'' # stripSlug (drop 9 cs))" by (simp add: slugAt_Cons isSep_def)
    with True ih show ?thesis by simp
  next
    case False
    from "2.prems" have nd: "\<not> doubleSlugAt (c # cs)" and "\<not> hasDoubleSlug cs" by simp_all
    with "2.IH"(2) False have ih: "stripSlug (stripSlug cs) = stripSlug cs" by simp
    from slugAt_after_strip [OF False nd] False ih show ?thesis by simp
  qed
qed

lemma hasSlug_shorter: "hasSlug y \<Longrightarrow> length (stripSlug y) < length y"
proof (induction y rule: stripSlug.induct)
  case 1
  then show ?case by simp
next
  case (2 c cs)
  show ?case
  proof (cases "slugAt (c # cs)")
    case True
    then show ?thesis by (rule stripSlug_slug_shorter)
  next
    case False
    with "2.prems" have "hasSlug cs" by simp
    with "2.IH"(2) False show ?thesis by simp
  qed
qed

lemma hasDoubleSlug_skip:
  "list_all (\<lambda>c. \<not> isSep c) (take n xs) \<Longrightarrow> hasDoubleSlug xs \<Longrightarrow> hasDoubleSlug (drop n xs)"
proof (induction n arbitrary: xs)
  case 0
  then show ?case by simp
next
  case (Suc n)
  show ?case
  proof (cases xs)
    case Nil
    with Suc.prems show ?thesis by simp
  next
    case (Cons a as)
    with Suc.prems have "\<not> isSep a" and t: "list_all (\<lambda>c. \<not> isSep c) (take n as)" by simp_all
    then have "\<not> doubleSlugAt (a # as)" by (simp add: doubleSlugAt_def)
    with Suc.prems(2) Cons have "hasDoubleSlug as" by simp
    from Suc.IH [OF t this] Cons show ?thesis by simp
  qed
qed

lemma slug_body_no_sep:
  assumes "slugAt (c # cs)"
  shows "list_all (\<lambda>c. \<not> isSep c) (take 9 cs)"
proof -
  from assms have l: "9 \<le> length cs" and h: "list_all isHex (take 8 cs)" and d: "cs ! 8 = CHR ''.''"
    by (simp_all add: slugAt_Cons)
  have "take 9 cs = take 8 cs @ [cs ! 8]"
    using l take_Suc_conv_app_nth [of 8 cs] by simp
  moreover have "list_all (\<lambda>c. \<not> isSep c) (take 8 cs)"
    using h isSep_not_hex by (auto simp: list_all_iff)
  moreover have "\<not> isSep (cs ! 8)" using d by (simp add: isSep_def)
  ultimately show ?thesis by simp
qed

lemma slug_not_double:
  assumes "slugAt (c # cs)"
  shows "\<not> doubleSlugAt (c # cs)"
proof
  assume "doubleSlugAt (c # cs)"
  then have s: "slugAt (drop 8 cs)" by (simp add: doubleSlugAt_def)
  from assms have l: "9 \<le> length cs" and d: "cs ! 8 = CHR ''.''" by (simp_all add: slugAt_Cons)
  from l have "drop 8 cs = cs ! 8 # drop 9 cs"
    using Cons_nth_drop_Suc [of 8 cs] by simp
  with s d have "isSep (CHR ''.'')" by (simp add: slugAt_Cons)
  then show False by (simp add: isSep_def)
qed

lemma stripSlug_hex_prefix:
  "n \<le> length cs \<Longrightarrow> list_all isHex (take n cs) \<Longrightarrow>
   stripSlug cs = take n cs @ stripSlug (drop n cs)"
proof (induction n arbitrary: cs)
  case 0
  show ?case by simp
next
  case (Suc n)
  then obtain d ds where cs: "cs = d # ds" by (cases cs) auto
  with Suc.prems have hx: "isHex d" and l: "n \<le> length ds" and h: "list_all isHex (take n ds)"
    by simp_all
  from hx have "\<not> isSep d" using isSep_not_hex by blast
  then have "\<not> slugAt (d # ds)" by (simp add: slugAt_Cons)
  with Suc.IH [OF l h] cs show ?case by simp
qed

lemma double_gives_slug:
  assumes "doubleSlugAt (c # cs)"
  shows "slugAt (c # stripSlug cs)"
proof -
  from assms have sep: "isSep c" and hex: "list_all isHex (take 8 cs)"
    and s: "slugAt (drop 8 cs)" by (simp_all add: doubleSlugAt_def)
  from s obtain e es where r: "drop 8 cs = e # es" by (cases "drop 8 cs") auto
  have l: "8 \<le> length cs"
  proof (rule ccontr)
    assume "\<not> 8 \<le> length cs"
    then have "drop 8 cs = []" by simp
    with r show False by simp
  qed
  from stripSlug_hex_prefix [OF l hex] r s
  have dec: "stripSlug cs = take 8 cs @ CHR ''.'' # stripSlug (drop 9 es)" by simp
  have "length (take 8 cs) = 8" using l by simp
  then show ?thesis using sep hex l
    by (subst dec) (simp add: slugAt_Cons nth_append)
qed

lemma double_exposes_slug: "hasDoubleSlug x \<Longrightarrow> hasSlug (stripSlug x)"
proof (induction x rule: stripSlug.induct)
  case 1
  then show ?case by simp
next
  case (2 c cs)
  show ?case
  proof (cases "slugAt (c # cs)")
    case True
    with "2.prems" slug_not_double [OF True] have "hasDoubleSlug cs" by simp
    from hasDoubleSlug_skip [OF slug_body_no_sep [OF True] this]
    have "hasDoubleSlug (drop 9 cs)" .
    with "2.IH"(1) True show ?thesis by simp
  next
    case False
    show ?thesis
    proof (cases "doubleSlugAt (c # cs)")
      case True
      from double_gives_slug [OF True] False show ?thesis by simp
    next
      case nd: False
      with "2.prems" have "hasDoubleSlug cs" by simp
      with "2.IH"(2) False show ?thesis by simp
    qed
  qed
qed


text \<open>
  Claim C3 (canonicalization is idempotent), amended. A second pass of \<open>stripSlug\<close>
  changes nothing exactly when the argument holds no two adjacent slugs, that is no
  separator and eight hexadecimal characters directly followed by a full slug: the first
  pass turns the second slug into a period, and that period completes the first one.
  On every other string \<open>stripSlug (stripSlug x) = stripSlug x\<close>.
\<close>

theorem stripSlug_idempotent_iff:
  "(stripSlug (stripSlug x) = stripSlug x) = (\<not> hasDoubleSlug x)"
proof
  assume e: "stripSlug (stripSlug x) = stripSlug x"
  show "\<not> hasDoubleSlug x"
  proof
    assume "hasDoubleSlug x"
    then have "hasSlug (stripSlug x)" by (rule double_exposes_slug)
    then have "length (stripSlug (stripSlug x)) < length (stripSlug x)" by (rule hasSlug_shorter)
    with e show False by simp
  qed
next
  assume "\<not> hasDoubleSlug x"
  then show "stripSlug (stripSlug x) = stripSlug x" by (rule stripSlug_idem)
qed

theorem stripSlug_idempotent_iff_witness:
  "\<not> hasDoubleSlug ''whatever-abcd1234.css''
   \<and> stripSlug (stripSlug ''whatever-abcd1234.css'') = stripSlug ''whatever-abcd1234.css''"
proof -
  have h: "\<not> hasDoubleSlug ''whatever-abcd1234.css''" by code_simp
  from iffD2 [OF stripSlug_idempotent_iff h] h show ?thesis by (rule conjI [rotated])
qed

text \<open>Claim C3 as stated fails: one pass over \<open>a-11111111-22222222.css\<close> gives
  \<open>a-11111111.css\<close>, a second pass gives \<open>a.css\<close>.\<close>

theorem stripSlug_idempotent_counterexample:
  "stripSlug (stripSlug ''a-11111111-22222222.css'') \<noteq> stripSlug ''a-11111111-22222222.css''"
  by code_simp

section \<open>Fingerprint insertion followed by canonicalization\<close>

lemma extScan_dot_in: "extScan r acc \<noteq> [] \<Longrightarrow> CHR ''.'' \<in> set r"
  by (induction r arbitrary: acc) (auto split: if_splits)

lemma extScan_append:
  "\<forall>c \<in> set xs. \<not> isPathSeparator c \<and> c \<noteq> CHR ''.'' \<Longrightarrow>
   extScan (xs @ CHR ''.'' # ys) acc = CHR ''.'' # rev xs @ acc"
  by (induction xs arbitrary: acc) (auto simp: isPathSeparator_def)

lemma Ext_append:
  assumes "CHR ''/'' \<notin> set e" and "CHR ''.'' \<notin> set e"
  shows "Ext (B @ CHR ''.'' # e) = CHR ''.'' # e"
proof -
  have "\<forall>c \<in> set (rev e). \<not> isPathSeparator c \<and> c \<noteq> CHR ''.''"
    using assms by (auto simp: isPathSeparator_def)
  from extScan_append [OF this, of "rev B" "[]"] show ?thesis
    by (simp add: Ext_def)
qed

lemma Ext_decompose:
  assumes "Ext L \<noteq> []" and "CHR ''/'' \<notin> set L"
  obtains B e where "L = B @ CHR ''.'' # e" and "CHR ''.'' \<notin> set e" and "Ext L = CHR ''.'' # e"
proof -
  from assms(1) have "CHR ''.'' \<in> set L"
    using extScan_dot_in [of "rev L" "[]"] by (simp add: Ext_def)
  from split_list_last [OF this]
  obtain B e where L: "L = B @ CHR ''.'' # e" and e: "CHR ''.'' \<notin> set e"
    by blast
  from L assms(2) have "CHR ''/'' \<notin> set e" by auto
  from Ext_append [OF this e, of B] L have "Ext L = CHR ''.'' # e" by simp
  with L e that show thesis by blast
qed

lemma Base_no_sep:
  assumes "CHR ''/'' \<notin> set L" and "L \<noteq> []"
  shows "Base L = L"
proof -
  have a: "\<forall>c \<in> set (rev L). \<not> isPathSeparator c"
    using assms(1) by (auto simp: isPathSeparator_def)
  then have d: "dropWhile isPathSeparator (rev L) = rev L"
    by (cases "rev L") auto
  have t: "takeWhile (\<lambda>c. \<not> isPathSeparator c) (rev L) = rev L"
    using a by simp
  show ?thesis using assms(2) by (simp add: Base_def d t)
qed

lemma TrimSuffix_append: "TrimSuffix (B @ E) E = B"
  by (simp add: TrimSuffix_def HasSuffix_def)

lemma insertFingerprint_shape:
  assumes "L = B @ CHR ''.'' # e" and "CHR ''.'' \<notin> set e" and "CHR ''/'' \<notin> set L"
  shows "insertFingerprint L H = B @ CHR ''-'' # H @ CHR ''.'' # e"
proof -
  from assms have "CHR ''/'' \<notin> set e" by auto
  from Ext_append [OF this assms(2), of B] assms(1) have x: "Ext L = CHR ''.'' # e" by simp
  have "L \<noteq> []" using assms(1) by simp
  with assms(3) have b: "Base L = L" by (rule Base_no_sep)
  have "TrimSuffix L (CHR ''.'' # e) = B"
    using TrimSuffix_append [of B "CHR ''.'' # e"] assms(1) by simp
  with x b show ?thesis by (simp add: insertFingerprint_def)
qed

lemma slug_inserted:
  assumes "length H = 8" and "list_all isHex H"
  shows "slugAt (CHR ''-'' # H @ CHR ''.'' # e)"
  using assms by (simp add: slugAt_Cons isSep_def nth_append)

lemma no_slug_across:
  assumes ns: "\<not> slugAt (b # B @ CHR ''.'' # e)"
  shows "\<not> slugAt (b # B @ CHR ''-'' # H @ CHR ''.'' # e)"
proof
  assume s: "slugAt (b # B @ CHR ''-'' # H @ CHR ''.'' # e)"
  let ?R = "CHR ''-'' # H @ CHR ''.'' # e"
  from s have sep: "isSep b" and hex: "list_all isHex (take 8 (B @ ?R))"
    and dot: "(B @ ?R) ! 8 = CHR ''.''" by (simp_all add: slugAt_Cons)
  show False
  proof (cases "9 \<le> length B")
    case True
    then have "take 8 (B @ ?R) = take 8 (B @ CHR ''.'' # e)"
      and "(B @ ?R) ! 8 = (B @ CHR ''.'' # e) ! 8" by (simp_all add: nth_append)
    with sep hex dot True have "slugAt (b # B @ CHR ''.'' # e)" by (simp add: slugAt_Cons)
    with ns show False by simp
  next
    case False
    then have lt: "length B < 9" by simp
    have at: "(B @ ?R) ! length B = CHR ''-''" by (simp add: nth_append)
    show False
    proof (cases "length B = 8")
      case True
      with at dot show False by simp
    next
      case False
      with lt have l8: "length B < 8" by simp
      then have "length B < length (take 8 (B @ ?R))" by simp
      then have "take 8 (B @ ?R) ! length B \<in> set (take 8 (B @ ?R))" by (rule nth_mem)
      moreover have "take 8 (B @ ?R) ! length B = (B @ ?R) ! length B" using l8 by (rule nth_take)
      ultimately have "CHR ''-'' \<in> set (take 8 (B @ ?R))" using at by simp
      with hex have "isHex (CHR ''-'')" by (simp add: list_all_iff)
      then show False by (simp add: isHex_def)
    qed
  qed
qed

lemma stripSlug_inserted:
  assumes "length H = 8" and "list_all isHex H" and "CHR ''.'' \<notin> set e"
  shows "stripSlug (B @ CHR ''.'' # e) = B @ CHR ''.'' # e \<Longrightarrow>
         stripSlug (B @ CHR ''-'' # H @ CHR ''.'' # e) = B @ CHR ''.'' # e"
proof (induction B)
  case Nil
  have "stripSlug e = e" using assms(3) by (rule stripSlug_no_dot)
  with slug_inserted [OF assms(1,2), of e] assms(1) show ?case by simp
next
  case (Cons b B)
  from Cons.prems have f: "stripSlug (b # B @ CHR ''.'' # e) = b # B @ CHR ''.'' # e" by simp
  from stripSlug_fixed_Cons [OF f] have ns: "\<not> slugAt (b # B @ CHR ''.'' # e)"
    and r: "stripSlug (B @ CHR ''.'' # e) = B @ CHR ''.'' # e" by simp_all
  from no_slug_across [OF ns] Cons.IH [OF r] show ?case by simp
qed


lemma stripSlug_inserted_name:
  assumes "CHR ''/'' \<notin> set L" and "Ext L \<noteq> []" and "stripSlug L = L"
    and "length H = 8" and "list_all isHex H"
  shows "stripSlug (insertFingerprint L H) = L"
proof -
  from Ext_decompose [OF assms(2,1)] obtain B e
    where L: "L = B @ CHR ''.'' # e" and e: "CHR ''.'' \<notin> set e" by blast
  from insertFingerprint_shape [OF L e assms(1)]
  have "insertFingerprint L H = B @ CHR ''-'' # H @ CHR ''.'' # e" .
  moreover from assms(3) L have "stripSlug (B @ CHR ''.'' # e) = B @ CHR ''.'' # e" by simp
  from stripSlug_inserted [OF assms(4,5) e this]
  have "stripSlug (B @ CHR ''-'' # H @ CHR ''.'' # e) = B @ CHR ''.'' # e" .
  ultimately show ?thesis using L by simp
qed


text \<open>
  Claim C4 (canonicalization round trip), amended. For a logical name \<open>L\<close> that is a
  plain file name (no path separator), has an extension (\<open>Ext L\<close> is not empty) and is
  itself free of slugs (\<open>stripSlug L = L\<close>), and for eight lower-case hexadecimal
  characters \<open>H\<close>, canonicalizing the name that \<^verbatim>\<open>hash-rename\<close> builds from \<open>L\<close>
  and \<open>H\<close> gives \<open>L\<close> back.
\<close>

theorem stripSlug_insertFingerprint:
  assumes "CHR ''/'' \<notin> set L" and "Ext L \<noteq> []" and "stripSlug L = L"
    and "length H = 8" and "list_all isHex H"
  shows "stripSlug (insertFingerprint L H) = L"
  using assms by (rule stripSlug_inserted_name)

theorem stripSlug_insertFingerprint_witness:
  "CHR ''/'' \<notin> set ''app.css'' \<and> Ext ''app.css'' \<noteq> [] \<and> stripSlug ''app.css'' = ''app.css''
   \<and> length ''1a2b3c4d'' = 8 \<and> list_all isHex ''1a2b3c4d''
   \<and> stripSlug (insertFingerprint ''app.css'' ''1a2b3c4d'') = ''app.css''"
proof -
  have a: "CHR ''/'' \<notin> set ''app.css''" by simp
  have b: "Ext ''app.css'' \<noteq> []" by code_simp
  have c: "stripSlug ''app.css'' = ''app.css''" by code_simp
  have d: "length ''1a2b3c4d'' = 8" by simp
  have e: "list_all isHex ''1a2b3c4d''" by code_simp
  from stripSlug_insertFingerprint [OF a b c d e] a b c d e show ?thesis by blast
qed

text \<open>Claim C4 as stated fails for a name without extension: the fingerprint is
  appended at the end, no period follows it, and \<open>stripSlug\<close> leaves it in place.\<close>

theorem stripSlug_insertFingerprint_counterexample:
  "stripSlug (insertFingerprint ''Makefile'' ''deadbeef'') \<noteq> ''Makefile''"
  by code_simp

text \<open>The other two conditions on the logical name are needed as well: with a directory
  part only the base name comes back, and a slug inside the name is stripped too.\<close>

lemma roundtrip_needs_plain_name:
  "stripSlug (insertFingerprint ''css/app.css'' ''deadbeef'') = ''app.css''"
  by code_simp

lemma roundtrip_needs_slug_free:
  "stripSlug (insertFingerprint ''app-11111111.min.css'' ''deadbeef'') = ''app.min.css''"
  by code_simp

text \<open>The hash that \<^verbatim>\<open>hash-rename\<close> inserts always has the shape the pattern
  expects, so the round trip holds for the names the command produces.\<close>

lemma hexDigit_isHex: "isHex (hexDigit n)"
proof -
  have "n mod 16 < length ''0123456789abcdef''" by simp
  then have "''0123456789abcdef'' ! (n mod 16) \<in> set ''0123456789abcdef''" by (rule nth_mem)
  moreover have "set ''0123456789abcdef'' = set ''abcdef0123456789''" by auto
  ultimately show ?thesis by (simp only: isHex_def hexDigit_def)
qed

lemma hex8_shape: "length (hex8 w) = 8 \<and> list_all isHex (hex8 w)"
  by (simp add: hex8_def hexDigit_isHex)

lemma hashRename_roundtrip:
  assumes "CHR ''/'' \<notin> set L" and "Ext L \<noteq> []" and "stripSlug L = L"
  shows "stripSlug (insertFingerprint L (hex8 (fnv32a b))) = L"
proof -
  from hex8_shape [of "fnv32a b"] have "length (hex8 (fnv32a b)) = 8"
    and "list_all isHex (hex8 (fnv32a b))" by simp_all
  from stripSlug_inserted_name [OF assms this] show ?thesis .
qed
section \<open>The manifest loop\<close>

lemma feed_other: "stripSlug (Base fn) \<noteq> k \<Longrightarrow> feed fn mt m k = m k"
  by (simp add: feed_def Let_def)

lemma feed_key:
  "feed fn mt m (stripSlug (Base fn)) =
     (if modTime (mapIndex m (stripSlug (Base fn))) = 0 \<or> modTime (mapIndex m (stripSlug (Base fn))) < mt
      then Some \<lparr>name = Base fn, path = fn, modTime = mt\<rparr>
      else m (stripSlug (Base fn)))"
  by (simp add: feed_def Let_def IsZero_def After_def)

lemma mapIndex_None: "m k = None \<Longrightarrow> modTime (mapIndex m k) = 0"
  by (simp add: mapIndex_def zeroEntry_def)

lemma mapIndex_Some: "m k = Some e \<Longrightarrow> mapIndex m k = e"
  by (simp add: mapIndex_def)

lemma fmapLoop_missing:
  "osStat ev fn = Inl ErrNotExist \<Longrightarrow>
   fmapLoop ev (fn # fns) m lg = fmapLoop ev fns m (lg @ [LogSkipMissing fn])"
  by (simp add: isNotExist_def)

lemma fmapLoop_error:
  "osStat ev fn = Inl e \<Longrightarrow> e \<noteq> ErrNotExist \<Longrightarrow>
   fmapLoop ev (fn # fns) m lg = Inl (lg, FailInputFile fn e)"
  by (simp add: isNotExist_def)

lemma newest_skip:
  assumes "newest ev k S m" and "\<not> candidate ev k fn"
  shows "newest ev k (insert fn S) m"
  using assms by (auto simp: newest_def split: option.splits)

lemma newest_feed:
  assumes inv: "newest ev k S m" and st: "osStat ev fn = Inr mt"
    and zs: "zeroSafe ev k A" and sub: "insert fn S \<subseteq> A"
  shows "newest ev k (insert fn S) (feed fn mt m)"
proof (cases "stripSlug (Base fn) = k")
  case False
  then have "\<not> candidate ev k fn" using st by (simp add: candidate_def)
  from newest_skip [OF inv this] False show ?thesis
    by (simp add: newest_def feed_other)
next
  case True
  have c: "candidate ev k fn" using st True by (simp add: candidate_def)
  have ce: "candidateEntry ev fn = \<lparr>name = Base fn, path = fn, modTime = mt\<rparr>"
    using st by (simp add: candidateEntry_def)
  show ?thesis
  proof (cases "m k")
    case None
    with inv have "\<forall>f \<in> S. \<not> candidate ev k f" by (simp add: newest_def)
    moreover have "feed fn mt m k = Some \<lparr>name = Base fn, path = fn, modTime = mt\<rparr>"
      using None True feed_key [of fn mt m] by (simp add: mapIndex_None)
    ultimately show ?thesis using c ce by (auto simp: newest_def)
  next
    case (Some e)
    with inv have ex: "\<exists>f \<in> S. candidate ev k f \<and> e = candidateEntry ev f"
      and mx: "\<forall>f \<in> S. candidate ev k f \<longrightarrow> modTime (candidateEntry ev f) \<le> modTime e"
      by (simp_all add: newest_def)
    show ?thesis
    proof (cases "modTime e = 0 \<or> modTime e < mt")
      case True
      have le: "modTime e \<le> mt"
      proof (cases "modTime e = 0")
        case z: True
        from ex obtain f where f: "f \<in> S" "candidate ev k f" "e = candidateEntry ev f" by blast
        with sub z have "f \<in> A" and "modTime (candidateEntry ev f) = 0" by auto
        moreover from sub have "fn \<in> A" by simp
        ultimately have "0 \<le> modTime (candidateEntry ev fn)"
          using zs f(2) c by (auto simp: zeroSafe_def)
        with ce z show ?thesis by simp
      next
        case False
        with True show ?thesis by simp
      qed
      have "feed fn mt m k = Some \<lparr>name = Base fn, path = fn, modTime = mt\<rparr>"
        using Some \<open>stripSlug (Base fn) = k\<close> True feed_key [of fn mt m] by (simp add: mapIndex_Some)
      moreover have "\<forall>f \<in> insert fn S. candidate ev k f \<longrightarrow> modTime (candidateEntry ev f) \<le> mt"
        using mx le ce by auto
      ultimately show ?thesis using c ce by (auto simp: newest_def)
    next
      case False
      then have le: "mt \<le> modTime e" by simp
      have "feed fn mt m k = Some e"
        using Some \<open>stripSlug (Base fn) = k\<close> False feed_key [of fn mt m] by (simp add: mapIndex_Some)
      moreover have "\<forall>f \<in> insert fn S. candidate ev k f \<longrightarrow> modTime (candidateEntry ev f) \<le> modTime e"
        using mx le ce by auto
      ultimately show ?thesis using ex by (auto simp: newest_def)
    qed
  qed
qed

lemma newest_fmapLoop:
  "fmapLoop ev fns m lg = Inr (m', lg') \<Longrightarrow> newest ev k S m \<Longrightarrow>
   zeroSafe ev k A \<Longrightarrow> S \<union> set fns \<subseteq> A \<Longrightarrow>
   newest ev k (S \<union> set fns) m'"
proof (induction fns arbitrary: m lg S)
  case Nil
  then show ?case by simp
next
  case (Cons fn fns)
  from Cons.prems(4) have sub: "insert fn S \<subseteq> A" and sub': "insert fn S \<union> set fns \<subseteq> A"
    by auto
  show ?case
  proof (cases "osStat ev fn")
    case (Inl e)
    then have nc: "\<not> candidate ev k fn" by (simp add: candidate_def)
    from Cons.prems(1) Inl have "fmapLoop ev fns m (lg @ [LogSkipMissing fn]) = Inr (m', lg')"
      by (simp split: if_splits)
    from Cons.IH [OF this newest_skip [OF Cons.prems(2) nc] Cons.prems(3) sub']
    show ?thesis by simp
  next
    case (Inr mt)
    from Cons.prems(1) Inr have "fmapLoop ev fns (feed fn mt m) lg = Inr (m', lg')" by simp
    from Cons.IH [OF this newest_feed [OF Cons.prems(2) Inr Cons.prems(3) sub] Cons.prems(3) sub']
    show ?thesis by simp
  qed
qed






lemma key1: "stripSlug (Base ''a-11111111.css'') = ''a.css''" by code_simp

lemma key2: "stripSlug (Base ''a-22222222.css'') = ''a.css''" by code_simp


lemma base2: "Base ''a-22222222.css'' = ''a-22222222.css''" by code_simp

lemma osStat_testEnv: "osStat (testEnv st) = st" by (simp add: testEnv_def)

lemma statTable_Nil: "statTable [] p = Inl ErrNotExist"
  by (simp add: statTable_def)

lemma statTable_Cons: "statTable ((q, t) # tbl) p = (if p = q then Inr t else statTable tbl p)"
  by (simp add: statTable_def)

lemma feed_empty:
  "feed fn mt Map.empty = [stripSlug (Base fn) \<mapsto> \<lparr>name = Base fn, path = fn, modTime = mt\<rparr>]"
  by (simp add: feed_def Let_def mapIndex_def zeroEntry_def IsZero_def)

lemma feed_single:
  "stripSlug (Base fn) = k \<Longrightarrow>
   feed fn mt [k \<mapsto> e] =
     (if modTime e = 0 \<or> modTime e < mt
      then [k \<mapsto> \<lparr>name = Base fn, path = fn, modTime = mt\<rparr>] else [k \<mapsto> e])"
  by (simp add: feed_def Let_def mapIndex_def IsZero_def After_def)

lemma fmapLoop_two_same_key:
  assumes "osStat ev f1 = Inr t1" and "osStat ev f2 = Inr t2"
    and "stripSlug (Base f1) = k" and "stripSlug (Base f2) = k"
  shows "fmapLoop ev [f1, f2] Map.empty [] =
     Inr ([k \<mapsto> (if t1 = 0 \<or> t1 < t2 then \<lparr>name = Base f2, path = f2, modTime = t2\<rparr>
                 else \<lparr>name = Base f1, path = f1, modTime = t1\<rparr>)], [])"
proof -
  have "feed f1 t1 Map.empty = [k \<mapsto> \<lparr>name = Base f1, path = f1, modTime = t1\<rparr>]"
    using assms(3) by (simp add: feed_empty)
  moreover from feed_single [OF assms(4), of t2 "\<lparr>name = Base f1, path = f1, modTime = t1\<rparr>"]
  have "feed f2 t2 [k \<mapsto> \<lparr>name = Base f1, path = f1, modTime = t1\<rparr>] =
     [k \<mapsto> (if t1 = 0 \<or> t1 < t2 then \<lparr>name = Base f2, path = f2, modTime = t2\<rparr>
                 else \<lparr>name = Base f1, path = f1, modTime = t1\<rparr>)]"
    by simp
  ultimately show ?thesis using assms(1,2) by simp
qed

lemma statTable_two:
  "p \<noteq> q \<Longrightarrow> osStat (testEnv (statTable [(p, s), (q, t)])) p = Inr s"
  "p \<noteq> q \<Longrightarrow> osStat (testEnv (statTable [(p, s), (q, t)])) q = Inr t"
  by (simp_all add: osStat_testEnv statTable_Cons)

lemma names_differ: "''a-11111111.css'' \<noteq> ''a-22222222.css''"
  by simp

lemma candidate_okI:
  "osStat ev fn = Inr mt \<Longrightarrow> stripSlug (Base fn) = k \<Longrightarrow> candidate ev k fn"
  by (simp add: candidate_def)

lemma candidateEntry_ok:
  "osStat ev fn = Inr mt \<Longrightarrow> candidateEntry ev fn = \<lparr>name = Base fn, path = fn, modTime = mt\<rparr>"
  by (simp add: candidateEntry_def)

text \<open>The loop ends with a manifest exactly when \<^verbatim>\<open>os.Stat\<close> fails on none of the
  files for a reason other than "not exist".\<close>

lemma fmapLoop_total:
  "(\<exists>m' lg'. fmapLoop ev fns m lg = Inr (m', lg')) = (\<forall>fn \<in> set fns. \<not> statFatal ev fn)"
proof (induction fns arbitrary: m lg)
  case Nil
  show ?case by simp
next
  case (Cons fn fns)
  show ?case
  proof (cases "osStat ev fn")
    case (Inl e)
    show ?thesis
    proof (cases "e = ErrNotExist")
      case True
      with Inl have "\<not> statFatal ev fn" by (simp add: statFatal_def)
      with Inl True Cons.IH [of m "lg @ [LogSkipMissing fn]"] show ?thesis
        by (simp add: isNotExist_def)
    next
      case False
      with Inl have "statFatal ev fn" by (simp add: statFatal_def)
      with Inl False show ?thesis by (simp add: isNotExist_def)
    qed
  next
    case (Inr mt)
    then have "\<not> statFatal ev fn" by (simp add: statFatal_def)
    with Inr Cons.IH [of "feed fn mt m" lg] show ?thesis by simp
  qed
qed

text \<open>
  Newest wins for every key whose candidates do not combine the zero instant of
  \<^verbatim>\<open>time.Time\<close> with an earlier time: when the loop ends without a fatal error, such
  a key has no entry only if it has no candidate, and its entry is built from one of its
  candidates, with a modification time that no candidate of the key exceeds. The
  manifest is a map, so a key never has more than one entry.
\<close>

lemma newest_wins_when_zeroSafe:
  assumes "fmapLoop ev fns Map.empty [] = Inr (m, lg)" and "zeroSafe ev k (set fns)"
  shows "(m k = None \<longrightarrow> (\<forall>fn \<in> set fns. \<not> candidate ev k fn))
    \<and> (\<forall>e. m k = Some e \<longrightarrow>
          (\<exists>fn \<in> set fns. candidate ev k fn \<and> e = candidateEntry ev fn)
          \<and> (\<forall>fn \<in> set fns. candidate ev k fn \<longrightarrow> modTime (candidateEntry ev fn) \<le> modTime e))"
proof -
  have "newest ev k {} Map.empty" by (simp add: newest_def)
  from newest_fmapLoop [OF assms(1) this assms(2)]
  have "newest ev k (set fns) m" by simp
  then show ?thesis by (auto simp: newest_def split: option.splits)
qed

text \<open>In particular this holds for every key when no file has the zero instant as its
  modification time, and for every key when no file is older than the zero instant.\<close>

lemma zeroSafe_no_zero:
  "\<forall>fn \<in> A. \<forall>mt. osStat ev fn = Inr mt \<longrightarrow> mt \<noteq> 0 \<Longrightarrow> zeroSafe ev k A"
  by (auto simp: zeroSafe_def candidate_def candidateEntry_def split: sum.splits)

lemma zeroSafe_none_before_zero:
  "\<forall>fn \<in> A. \<forall>mt. osStat ev fn = Inr mt \<longrightarrow> 0 \<le> mt \<Longrightarrow> zeroSafe ev k A"
  by (auto simp: zeroSafe_def candidate_def candidateEntry_def split: sum.splits)

text \<open>The example of the claim: \<open>a-11111111.css\<close> at time 1 and \<open>a-22222222.css\<close> at
  time 2, fed in either order, leave \<open>a.css\<close> on \<open>a-22222222.css\<close>.\<close>

lemma newest_wins_example:
  "fmapLoop (testEnv (statTable [(''a-11111111.css'', 1), (''a-22222222.css'', 2)]))
      [''a-11111111.css'', ''a-22222222.css''] Map.empty []
     = Inr ([''a.css'' \<mapsto> \<lparr>name = ''a-22222222.css'', path = ''a-22222222.css'', modTime = 2\<rparr>], [])
   \<and> fmapLoop (testEnv (statTable [(''a-11111111.css'', 1), (''a-22222222.css'', 2)]))
      [''a-22222222.css'', ''a-11111111.css''] Map.empty []
     = Inr ([''a.css'' \<mapsto> \<lparr>name = ''a-22222222.css'', path = ''a-22222222.css'', modTime = 2\<rparr>], [])"
proof -
  let ?E = "testEnv (statTable [(''a-11111111.css'', 1), (''a-22222222.css'', 2)])"
  let ?e2 = "\<lparr>name = ''a-22222222.css'', path = ''a-22222222.css'', modTime = 2\<rparr>"
  note s1 = statTable_two(1) [OF names_differ, of 1 2]
  note s2 = statTable_two(2) [OF names_differ, of 1 2]
  have l12: "fmapLoop ?E [''a-11111111.css'', ''a-22222222.css''] Map.empty []
      = Inr ([''a.css'' \<mapsto> ?e2], [])"
    using fmapLoop_two_same_key [OF s1 s2 key1 key2] by (simp add: base2)
  have l21: "fmapLoop ?E [''a-22222222.css'', ''a-11111111.css''] Map.empty []
      = Inr ([''a.css'' \<mapsto> ?e2], [])"
    using fmapLoop_two_same_key [OF s2 s1 key2 key1] by (simp add: base2)
  from l12 l21 show ?thesis by simp
qed

text \<open>
  Claim C1 (one entry per key, newest wins): what the code does where it departs from
  the claim. \<open>a-11111111.css\<close> has the zero instant as its modification time and is
  fed first; \<open>a-22222222.css\<close> is one nanosecond older and is fed second. The loop takes
  the stored zero time for an empty slot and replaces the entry: the manifest ends with
  the older file, although the newer one is a candidate of the same key.
\<close>

theorem manifest_zero_instant_replaced:
  "fmapLoop (testEnv (statTable [(''a-11111111.css'', 0), (''a-22222222.css'', - 1)]))
      [''a-11111111.css'', ''a-22222222.css''] Map.empty []
     = Inr ([''a.css'' \<mapsto> \<lparr>name = ''a-22222222.css'', path = ''a-22222222.css'', modTime = - 1\<rparr>], [])
   \<and> candidate (testEnv (statTable [(''a-11111111.css'', 0), (''a-22222222.css'', - 1)]))
        ''a.css'' ''a-11111111.css''
   \<and> modTime (candidateEntry (testEnv (statTable [(''a-11111111.css'', 0), (''a-22222222.css'', - 1)]))
        ''a-11111111.css'') = 0"
proof -
  let ?E = "testEnv (statTable [(''a-11111111.css'', 0), (''a-22222222.css'', - 1)])"
  note s1 = statTable_two(1) [OF names_differ, of 0 "- 1"]
  note s2 = statTable_two(2) [OF names_differ, of 0 "- 1"]
  have "fmapLoop ?E [''a-11111111.css'', ''a-22222222.css''] Map.empty []
      = Inr ([''a.css'' \<mapsto> \<lparr>name = ''a-22222222.css'', path = ''a-22222222.css'', modTime = - 1\<rparr>], [])"
    using fmapLoop_two_same_key [OF s1 s2 key1 key2] by (simp add: base2)
  moreover have "candidate ?E ''a.css'' ''a-11111111.css''"
    using s1 key1 by (rule candidate_okI)
  moreover have "modTime (candidateEntry ?E ''a-11111111.css'') = 0"
    using candidateEntry_ok [OF s1] by simp
  ultimately show ?thesis by simp
qed



section \<open>Execution of a template against the closures\<close>

lemma FileName_state:
  "s_fmap (snd (FileName vb parts s)) = s_fmap s"
  "s_pageBaseName (snd (FileName vb parts s)) = s_pageBaseName s"
  "filter (\<lambda>l. \<not> verboseLine l) (s_log (snd (FileName vb parts s)))
     = filter (\<lambda>l. \<not> verboseLine l) (s_log s)"
  "snd (FileName False parts s) = s"
  by (simp_all add: FileName_def Let_def verboseLine_def)

lemma FileExists_state:
  "s_fmap (snd (FileExists vb parts s)) = s_fmap s"
  "s_pageBaseName (snd (FileExists vb parts s)) = s_pageBaseName s"
  "filter (\<lambda>l. \<not> verboseLine l) (s_log (snd (FileExists vb parts s)))
     = filter (\<lambda>l. \<not> verboseLine l) (s_log s)"
  "snd (FileExists False parts s) = s"
  by (simp_all add: FileExists_def Let_def verboseLine_def)

lemma FileName_value:
  "fst (FileName vb parts s) = (case s_fmap s (concat parts) of None \<Rightarrow> [] | Some fme \<Rightarrow> name fme)"
  by (simp add: FileName_def Let_def)

lemma FileExists_value:
  "fst (FileExists vb parts s) = (case s_fmap s (concat parts) of None \<Rightarrow> False | Some fme \<Rightarrow> True)"
  by (simp add: FileExists_def Let_def)

lemma execT_state:
  "s_fmap (snd (execT vb p s)) = s_fmap s
   \<and> s_pageBaseName (snd (execT vb p s)) = s_pageBaseName s
   \<and> filter (\<lambda>l. \<not> verboseLine l) (s_log (snd (execT vb p s)))
       = filter (\<lambda>l. \<not> verboseLine l) (s_log s)"
proof (induction p arbitrary: s)
  case (TDone r)
  show ?case by simp
next
  case (TPageBaseName k)
  show ?case using TPageBaseName [of "k (s_pageBaseName s)" s]
    by (simp add: PageBaseName_def)
next
  case (TFileName parts k)
  show ?case
    using TFileName [of "k (fst (FileName vb parts s))" "snd (FileName vb parts s)"]
    by (simp add: split_beta FileName_state)
next
  case (TFileExists parts k)
  show ?case
    using TFileExists [of "k (fst (FileExists vb parts s))" "snd (FileExists vb parts s)"]
    by (simp add: split_beta FileExists_state)
qed

lemma execT_quiet: "snd (execT False p s) = s"
proof (induction p arbitrary: s)
  case (TDone r)
  show ?case by simp
next
  case (TPageBaseName k)
  show ?case using TPageBaseName [of "k (s_pageBaseName s)" s]
    by (simp add: PageBaseName_def)
next
  case (TFileName parts k)
  show ?case
    using TFileName [of "k (fst (FileName False parts s))" s]
    by (simp add: split_beta FileName_state)
next
  case (TFileExists parts k)
  show ?case
    using TFileExists [of "k (fst (FileExists False parts s))" s]
    by (simp add: split_beta FileExists_state)
qed

lemma execT_result:
  "s_fmap s1 = s_fmap s2 \<Longrightarrow> s_pageBaseName s1 = s_pageBaseName s2 \<Longrightarrow>
   fst (execT v1 p s1) = fst (execT v2 p s2)"
proof (induction p arbitrary: s1 s2)
  case (TDone r)
  show ?case by simp
next
  case (TPageBaseName k)
  from TPageBaseName.prems
    TPageBaseName.IH [of "k (s_pageBaseName s1)" s1 s2]
  show ?case by (simp add: PageBaseName_def)
next
  case (TFileName parts k)
  from TFileName.prems have v: "fst (FileName v1 parts s1) = fst (FileName v2 parts s2)"
    by (simp add: FileName_value)
  from TFileName.prems
    TFileName.IH [of "k (fst (FileName v1 parts s1))" "snd (FileName v1 parts s1)"
      "snd (FileName v2 parts s2)"]
  show ?case by (simp add: split_beta FileName_state v)
next
  case (TFileExists parts k)
  from TFileExists.prems have v: "fst (FileExists v1 parts s1) = fst (FileExists v2 parts s2)"
    by (simp add: FileExists_value)
  from TFileExists.prems
    TFileExists.IH [of "k (fst (FileExists v1 parts s1))" "snd (FileExists v1 parts s1)"
      "snd (FileExists v2 parts s2)"]
  show ?case by (simp add: split_beta FileExists_state v)
qed

lemma observable_simps:
  "observable (fatal ops lg f) = (ExitFatal, [], ops)"
  "observable (success out ops lg) = (Exit0, out, ops)"
  "observable (panic ops lg e) = (ExitPanic, [], ops)"
  by (simp_all add: observable_def fatal_def success_def panic_def)

lemma logs_simps:
  "logs (fatal ops lg f) = lg @ [LogFatal f]"
  "logs (success out ops lg) = lg"
  "logs (panic ops lg e) = lg @ [LogPanic e]"
  by (simp_all add: fatal_def success_def panic_def)

lemma verboseLine_simps:
  "\<not> verboseLine (LogFatal f)" "\<not> verboseLine (LogPanic e)" "\<not> verboseLine LogNoIn"
  "\<not> verboseLine (LogSkipMissing fn)" "\<not> verboseLine (LogTmplExists q)"
  "\<not> verboseLine (LogWroteTmpl q)" "\<not> verboseLine (LogRenaming x y)"
  "\<not> verboseLine (LogEvent x)"
  "verboseLine (LogFmap m)" "verboseLine (LogFileName k r)" "verboseLine (LogFileExists k b)"
  by (simp_all add: verboseLine_def)

lemma render_cases:
  "render vb ev a s p =
     (case fst (execT vb p s) of
        TErr e \<Rightarrow> fatal [] (s_log (snd (execT vb p s))) (FailTmpl e)
      | TOut b \<Rightarrow>
          if pageTmplOut a = [] then fatal [] (s_log (snd (execT vb p s))) FailNoOut
          else (case osWriteFile ev (pageTmplOut a) b of
                  Some e \<Rightarrow> fatal [OpWriteFile (pageTmplOut a) b] (s_log (snd (execT vb p s))) (FailErr e)
                | None \<Rightarrow> success [] [OpWriteFile (pageTmplOut a) b] (s_log (snd (execT vb p s)))))"
  by (simp add: render_def split_beta split: tres.splits prod.splits)

lemma render_observable:
  assumes "s_fmap s1 = s_fmap s2" and "s_pageBaseName s1 = s_pageBaseName s2"
  shows "observable (render v1 ev a s1 p) = observable (render v2 ev a s2 p)"
proof -
  from execT_result [OF assms] have "fst (execT v1 p s1) = fst (execT v2 p s2)" .
  then show ?thesis
    by (simp add: render_cases observable_simps split: tres.splits option.splits)
qed

lemma render_logs:
  assumes "s_fmap s1 = s_fmap s2" and "s_pageBaseName s1 = s_pageBaseName s2"
    and "filter (\<lambda>l. \<not> verboseLine l) (s_log s1) = filter (\<lambda>l. \<not> verboseLine l) (s_log s2)"
  shows "filter (\<lambda>l. \<not> verboseLine l) (logs (render v1 ev a s1 p))
       = filter (\<lambda>l. \<not> verboseLine l) (logs (render v2 ev a s2 p))"
proof -
  from execT_result [OF assms(1,2)] have r: "fst (execT v1 p s1) = fst (execT v2 p s2)" .
  have l: "filter (\<lambda>l. \<not> verboseLine l) (s_log (snd (execT v1 p s1)))
         = filter (\<lambda>l. \<not> verboseLine l) (s_log (snd (execT v2 p s2)))"
    using execT_state [of v1 p s1] execT_state [of v2 p s2] assms(3) by simp
  show ?thesis
    by (simp add: render_cases logs_simps r l verboseLine_simps split: tres.splits option.splits)
qed

lemma render_logs_quiet:
  assumes "filter (\<lambda>l. \<not> verboseLine l) (s_log s) = s_log s"
  shows "filter (\<lambda>l. \<not> verboseLine l) (logs (render False ev a s p)) = logs (render False ev a s p)"
  using assms
  by (simp add: render_cases logs_simps execT_quiet verboseLine_simps split: tres.splits option.splits)

section \<open>Missing files and failing files\<close>

lemma missing_not_candidate: "missing ev fn \<Longrightarrow> \<not> candidate ev k fn"
  by (simp add: missing_def candidate_def)

lemma fmapLoop_filter:
  "loopResult (fmapLoop ev fns m lg)
     = loopResult (fmapLoop ev (filter (\<lambda>fn. \<not> missing ev fn) fns) m lg2)"
proof (induction fns arbitrary: m lg lg2)
  case Nil
  show ?case by (simp add: loopResult_def)
next
  case (Cons fn fns)
  show ?case
  proof (cases "osStat ev fn")
    case (Inl e)
    show ?thesis
    proof (cases "e = ErrNotExist")
      case True
      with Inl have "missing ev fn" by (simp add: missing_def)
      with Inl True Cons.IH [of m "lg @ [LogSkipMissing fn]" lg2] show ?thesis
        by (simp add: isNotExist_def)
    next
      case False
      with Inl have "\<not> missing ev fn" by (simp add: missing_def)
      with Inl False show ?thesis by (simp add: isNotExist_def loopResult_def)
    qed
  next
    case (Inr mt)
    then have "\<not> missing ev fn" by (simp add: missing_def)
    with Inr Cons.IH [of "feed fn mt m" lg lg2] show ?thesis by simp
  qed
qed

lemma fmapLoop_warnings:
  "fmapLoop ev fns m lg = Inr (m', lg') \<Longrightarrow>
   lg' = lg @ map LogSkipMissing (filter (missing ev) fns)"
proof (induction fns arbitrary: m lg)
  case Nil
  then show ?case by simp
next
  case (Cons fn fns)
  show ?case
  proof (cases "osStat ev fn")
    case (Inl e)
    with Cons.prems have e: "e = ErrNotExist"
      and l: "fmapLoop ev fns m (lg @ [LogSkipMissing fn]) = Inr (m', lg')"
      by (simp_all add: isNotExist_def split: if_splits)
    from Inl e have "missing ev fn" by (simp add: missing_def)
    with Cons.IH [OF l] show ?thesis by simp
  next
    case (Inr mt)
    then have "\<not> missing ev fn" by (simp add: missing_def)
    moreover from Cons.prems Inr have "fmapLoop ev fns (feed fn mt m) lg = Inr (m', lg')" by simp
    from Cons.IH [OF this] have "lg' = lg @ map LogSkipMissing (filter (missing ev) fns)" .
    ultimately show ?thesis by simp
  qed
qed

lemma fmapLoop_fatal:
  "\<forall>fn \<in> set pre. \<not> statFatal ev fn \<Longrightarrow> osStat ev p = Inl e \<Longrightarrow> e \<noteq> ErrNotExist \<Longrightarrow>
   fmapLoop ev (pre @ p # post) m lg
     = Inl (lg @ map LogSkipMissing (filter (missing ev) pre), FailInputFile p e)"
proof (induction pre arbitrary: m lg)
  case Nil
  then show ?case by (simp add: isNotExist_def)
next
  case (Cons fn pre)
  from Cons.prems(1) have nf: "\<not> statFatal ev fn" and rest: "\<forall>f \<in> set pre. \<not> statFatal ev f"
    by simp_all
  show ?case
  proof (cases "osStat ev fn")
    case (Inl err)
    with nf have "err = ErrNotExist" by (simp add: statFatal_def)
    with Inl have ms: "missing ev fn" by (simp add: missing_def)
    from Cons.IH [OF rest Cons.prems(2,3), of m "lg @ [LogSkipMissing fn]"] Inl ms
      \<open>err = ErrNotExist\<close>
    show ?thesis by (simp add: isNotExist_def)
  next
    case (Inr mt)
    then have "\<not> missing ev fn" by (simp add: missing_def)
    with Cons.IH [OF rest Cons.prems(2,3), of "feed fn mt m" lg] Inr show ?thesis by simp
  qed
qed

lemma renderPage_observable:
  "observable (renderPage v1 ev a m lg1) = observable (renderPage v2 ev a m lg2)"
  by (auto simp: renderPage_def Let_def observable_simps
      intro!: render_observable split: sum.splits)

lemma render_files: "render vb ev (a\<lparr>pageTmplFiles := fs\<rparr>) s p = render vb ev a s p"
  by (simp add: render_cases split: tres.splits option.splits)

lemma renderPage_files: "renderPage vb ev (a\<lparr>pageTmplFiles := fs\<rparr>) m lg = renderPage vb ev a m lg"
  by (simp add: renderPage_def render_files Let_def split: sum.splits)

lemma pageTmplCmd_filter:
  "observable (pageTmplCmd vb ev a)
     = observable (pageTmplCmd vb ev
         (a\<lparr>pageTmplFiles := filter (\<lambda>fn. \<not> missing ev fn) (pageTmplFiles a)\<rparr>))"
proof (cases "pageTmplTmplOut a = []")
  case False
  then show ?thesis by (simp add: pageTmplCmd_def tmplOutBlock_def)
next
  case True
  let ?a = "a\<lparr>pageTmplFiles := filter (\<lambda>fn. \<not> missing ev fn) (pageTmplFiles a)\<rparr>"
  let ?L1 = "fmapLoop ev (pageTmplFiles a) Map.empty []"
  let ?L2 = "fmapLoop ev (filter (\<lambda>fn. \<not> missing ev fn) (pageTmplFiles a)) Map.empty []"
  have eq: "loopResult ?L1 = loopResult ?L2" by (rule fmapLoop_filter)
  have rp: "\<And>m lg. renderPage vb ev ?a m lg = renderPage vb ev a m lg"
    by (rule renderPage_files)
  show ?thesis
  proof (cases ?L1)
    case (Inl x)
    then obtain lg f where l1: "?L1 = Inl (lg, f)" by (cases x) simp
    with eq obtain lg2 where l2: "?L2 = Inl (lg2, f)"
      by (cases ?L2) (auto simp: loopResult_def)
    from True l1 l2 show ?thesis by (simp add: pageTmplCmd_def observable_simps)
  next
    case (Inr x)
    then obtain m lg where l1: "?L1 = Inr (m, lg)" by (cases x) simp
    with eq obtain lg2 where l2: "?L2 = Inr (m, lg2)"
      by (cases ?L2) (auto simp: loopResult_def)
    from True l1 l2 renderPage_observable [of vb ev a m lg vb lg2] show ?thesis
      by (simp add: pageTmplCmd_def rp)
  qed
qed

lemma one_missing_one_present:
  assumes "missing ev x" and "osStat ev y = Inr t"
  shows "fmapLoop ev [x, y] Map.empty []
           = Inr ([stripSlug (Base y) \<mapsto> \<lparr>name = Base y, path = y, modTime = t\<rparr>], [LogSkipMissing x])"
    and "fmapLoop ev [y, x] Map.empty []
           = Inr ([stripSlug (Base y) \<mapsto> \<lparr>name = Base y, path = y, modTime = t\<rparr>], [LogSkipMissing x])"
  using assms by (simp_all add: missing_def isNotExist_def feed_empty)
section \<open>Lookup functions\<close>

text \<open>
  Claim C6 (lookup consistency). \<open>FileName\<close> and \<open>FileExists\<close> look up the plain
  concatenation of their parts: the result for \<open>parts\<close> is the result for the single
  part \<open>concat parts\<close>. For a key of the manifest \<open>FileExists\<close> is true and
  \<open>FileName\<close> is the stored name; for any other key \<open>FileExists\<close> is false and
  \<open>FileName\<close> is the empty string. Both are total functions that return a value and
  leave the manifest as it was.
\<close>

theorem lookup_consistency:
  "FileName vb parts s = FileName vb [concat parts] s
   \<and> FileExists vb parts s = FileExists vb [concat parts] s
   \<and> (s_fmap s (concat parts) = Some fme \<longrightarrow>
        fst (FileExists vb parts s) = True \<and> fst (FileName vb parts s) = name fme)
   \<and> (s_fmap s (concat parts) = None \<longrightarrow>
        fst (FileExists vb parts s) = False \<and> fst (FileName vb parts s) = [])
   \<and> s_fmap (snd (FileName vb parts s)) = s_fmap s
   \<and> s_fmap (snd (FileExists vb parts s)) = s_fmap s"
  by (simp add: FileName_def FileExists_def Let_def)

theorem lookup_consistency_witness:
  "fst (FileName False [''homepage'', ''.css'']
      \<lparr>s_fmap = [''homepage.css'' \<mapsto> \<lparr>name = ''homepage-1a2b3c4d.css'',
          path = ''public/homepage-1a2b3c4d.css'', modTime = 3\<rparr>],
       s_pageBaseName = ''index'', s_log = []\<rparr>) = ''homepage-1a2b3c4d.css''
   \<and> fst (FileExists False [''homepage'', ''.css'']
      \<lparr>s_fmap = [''homepage.css'' \<mapsto> \<lparr>name = ''homepage-1a2b3c4d.css'',
          path = ''public/homepage-1a2b3c4d.css'', modTime = 3\<rparr>],
       s_pageBaseName = ''index'', s_log = []\<rparr>) = True
   \<and> fst (FileName False [''index'', ''.css'']
      \<lparr>s_fmap = [''homepage.css'' \<mapsto> \<lparr>name = ''homepage-1a2b3c4d.css'',
          path = ''public/homepage-1a2b3c4d.css'', modTime = 3\<rparr>],
       s_pageBaseName = ''index'', s_log = []\<rparr>) = []
   \<and> fst (FileExists False [''index'', ''.css'']
      \<lparr>s_fmap = [''homepage.css'' \<mapsto> \<lparr>name = ''homepage-1a2b3c4d.css'',
          path = ''public/homepage-1a2b3c4d.css'', modTime = 3\<rparr>],
       s_pageBaseName = ''index'', s_log = []\<rparr>) = False"
proof -
  let ?e = "\<lparr>name = ''homepage-1a2b3c4d.css'', path = ''public/homepage-1a2b3c4d.css'', modTime = 3\<rparr>"
  let ?s = "\<lparr>s_fmap = [''homepage.css'' \<mapsto> ?e], s_pageBaseName = ''index'', s_log = []\<rparr>"
  have p: "s_fmap ?s (concat [''homepage'', ''.css'']) = Some ?e" by simp
  have q: "s_fmap ?s (concat [''index'', ''.css'']) = None" by simp
  from lookup_consistency [of False "[''homepage'', ''.css'']" ?s ?e] p
  have 1: "fst (FileExists False [''homepage'', ''.css''] ?s) = True
      \<and> fst (FileName False [''homepage'', ''.css''] ?s) = name ?e" by blast
  from lookup_consistency [of False "[''index'', ''.css'']" ?s ?e] q
  have 2: "fst (FileExists False [''index'', ''.css''] ?s) = False
      \<and> fst (FileName False [''index'', ''.css''] ?s) = []" by blast
  from 1 2 show ?thesis by simp
qed

section \<open>The \<^verbatim>\<open>--tmpl-out\<close> block\<close>

lemma pageTmplCmd_tmplOut:
  "pageTmplTmplOut a \<noteq> [] \<Longrightarrow> pageTmplCmd vb ev a = tmplOutBlock ev a"
  by (simp add: pageTmplCmd_def)

lemma tmplOutBlock_found:
  "\<not> pageTmplForce a \<Longrightarrow> osStat ev (pageTmplTmplOut a) = Inr mt \<Longrightarrow>
   tmplOutBlock ev a = success [] [] [LogTmplExists (pageTmplTmplOut a)]"
  by (simp add: tmplOutBlock_def)

lemma tmplOutBlock_write:
  "pageTmplForce a \<or> osStat ev (pageTmplTmplOut a) = Inl e \<Longrightarrow>
   tmplOutBlock ev a =
     (case osWriteFile ev (pageTmplTmplOut a) defaultPageTmpl of
        Some e' \<Rightarrow> fatal [OpWriteFile (pageTmplTmplOut a) defaultPageTmpl] [] (FailErr e')
      | None \<Rightarrow> success [] [OpWriteFile (pageTmplTmplOut a) defaultPageTmpl]
          [LogWroteTmpl (pageTmplTmplOut a)])"
  by (auto simp: tmplOutBlock_def Let_def isNotExist_def)

lemma osWriteFile_testEnv: "osWriteFile (testEnv st) p b = None"
  by (simp add: testEnv_def)

text \<open>
  With \<^verbatim>\<open>--tmpl-out\<close> set, where \<^verbatim>\<open>os.Stat\<close> gives a definite answer: when
  \<^verbatim>\<open>--force\<close> is absent and \<^verbatim>\<open>os.Stat\<close> succeeds, the command ends with exit
  code 0, touches no file and logs only that the file exists, so no manifest is built and
  nothing is rendered or written; when \<^verbatim>\<open>--force\<close> is given or \<^verbatim>\<open>os.Stat\<close> says
  that the path does not exist, its one file operation is the write of the built-in
  template to that path, and when that write succeeds the command ends with exit code 0.
\<close>

lemma tmplOut_when_stat_answers:
  assumes "pageTmplTmplOut a \<noteq> []"
  shows "(\<not> pageTmplForce a \<and> osStat ev (pageTmplTmplOut a) = Inr mt \<longrightarrow>
            pageTmplCmd vb ev a
              = \<lparr>status = Exit0, stdout = [], fsops = [], logs = [LogTmplExists (pageTmplTmplOut a)]\<rparr>)
       \<and> (pageTmplForce a \<or> missing ev (pageTmplTmplOut a) \<longrightarrow>
            fsops (pageTmplCmd vb ev a) = [OpWriteFile (pageTmplTmplOut a) defaultPageTmpl]
            \<and> (osWriteFile ev (pageTmplTmplOut a) defaultPageTmpl = None \<longrightarrow>
                 pageTmplCmd vb ev a
                   = \<lparr>status = Exit0, stdout = [],
                      fsops = [OpWriteFile (pageTmplTmplOut a) defaultPageTmpl],
                      logs = [LogWroteTmpl (pageTmplTmplOut a)]\<rparr>))"
proof (intro conjI impI)
  assume "\<not> pageTmplForce a \<and> osStat ev (pageTmplTmplOut a) = Inr mt"
  then show "pageTmplCmd vb ev a
      = \<lparr>status = Exit0, stdout = [], fsops = [], logs = [LogTmplExists (pageTmplTmplOut a)]\<rparr>"
    using assms by (simp add: pageTmplCmd_tmplOut tmplOutBlock_found success_def)
next
  assume h: "pageTmplForce a \<or> missing ev (pageTmplTmplOut a)"
  then have w: "pageTmplForce a \<or> osStat ev (pageTmplTmplOut a) = Inl ErrNotExist"
    by (simp add: missing_def)
  from tmplOutBlock_write [OF w] assms
  show "fsops (pageTmplCmd vb ev a) = [OpWriteFile (pageTmplTmplOut a) defaultPageTmpl]"
    by (simp add: pageTmplCmd_tmplOut fatal_def success_def split: option.splits)
  assume "osWriteFile ev (pageTmplTmplOut a) defaultPageTmpl = None"
  with tmplOutBlock_write [OF w] assms
  show "pageTmplCmd vb ev a
      = \<lparr>status = Exit0, stdout = [],
         fsops = [OpWriteFile (pageTmplTmplOut a) defaultPageTmpl],
         logs = [LogWroteTmpl (pageTmplTmplOut a)]\<rparr>"
    by (simp add: pageTmplCmd_tmplOut success_def)
qed

lemma tmplOut_when_stat_answers_example:
  "pageTmplCmd False (testEnv (statTable [(''out.tmpl'', 7)]))
      \<lparr>pageTmplIn = [], pageTmplOut = [], pageTmplTmplOut = ''out.tmpl'', pageTmplForce = False,
       pageTmplFiles = [''style-deadbeef.css'']\<rparr>
     = \<lparr>status = Exit0, stdout = [], fsops = [], logs = [LogTmplExists ''out.tmpl'']\<rparr>
   \<and> pageTmplCmd False (testEnv (statTable [(''out.tmpl'', 7)]))
      \<lparr>pageTmplIn = [], pageTmplOut = [], pageTmplTmplOut = ''out.tmpl'', pageTmplForce = True,
       pageTmplFiles = [''style-deadbeef.css'']\<rparr>
     = \<lparr>status = Exit0, stdout = [], fsops = [OpWriteFile ''out.tmpl'' defaultPageTmpl],
        logs = [LogWroteTmpl ''out.tmpl'']\<rparr>
   \<and> pageTmplCmd False (testEnv (statTable []))
      \<lparr>pageTmplIn = [], pageTmplOut = [], pageTmplTmplOut = ''out.tmpl'', pageTmplForce = False,
       pageTmplFiles = [''style-deadbeef.css'']\<rparr>
     = \<lparr>status = Exit0, stdout = [], fsops = [OpWriteFile ''out.tmpl'' defaultPageTmpl],
        logs = [LogWroteTmpl ''out.tmpl'']\<rparr>"
proof -
  let ?E = "testEnv (statTable [(''out.tmpl'', 7)])"
  let ?a = "\<lambda>f. \<lparr>pageTmplIn = [], pageTmplOut = [], pageTmplTmplOut = ''out.tmpl'',
      pageTmplForce = f, pageTmplFiles = [''style-deadbeef.css'']\<rparr>"
  have n: "\<And>f. pageTmplTmplOut (?a f) \<noteq> []" by simp
  have s: "osStat ?E ''out.tmpl'' = Inr 7" by (simp add: osStat_testEnv statTable_Cons)
  have m: "missing (testEnv (statTable [])) ''out.tmpl''"
    by (simp add: missing_def osStat_testEnv statTable_Nil)
  from tmplOut_when_stat_answers [OF n, of False ?E 7 False] s
  have 1: "pageTmplCmd False ?E (?a False)
      = \<lparr>status = Exit0, stdout = [], fsops = [], logs = [LogTmplExists ''out.tmpl'']\<rparr>"
    by simp
  from tmplOut_when_stat_answers [OF n, of True ?E 7 False]
  have 2: "pageTmplCmd False ?E (?a True)
      = \<lparr>status = Exit0, stdout = [], fsops = [OpWriteFile ''out.tmpl'' defaultPageTmpl],
         logs = [LogWroteTmpl ''out.tmpl'']\<rparr>"
    by (simp add: osWriteFile_testEnv)
  from tmplOut_when_stat_answers [OF n, of False "testEnv (statTable [])" 7 False] m
  have 3: "pageTmplCmd False (testEnv (statTable [])) (?a False)
      = \<lparr>status = Exit0, stdout = [], fsops = [OpWriteFile ''out.tmpl'' defaultPageTmpl],
         logs = [LogWroteTmpl ''out.tmpl'']\<rparr>"
    by (simp add: osWriteFile_testEnv)
  from 1 2 3 show ?thesis by simp
qed

text \<open>
  Claim C7 (refusal to overwrite): what the code does where it departs from the claim.
  \<^verbatim>\<open>--tmpl-out\<close> names a file, \<^verbatim>\<open>--force\<close> is absent, and \<^verbatim>\<open>os.Stat\<close> fails
  on the path with an error other than "not exist", which does not say that the file is
  absent. The error is dropped and the command writes the built-in template over the
  path: it ends with exit code 0 when the write succeeds, and with \<^verbatim>\<open>log.Fatal\<close> on
  the error of the write when it fails.
\<close>

theorem tmplOut_overwrites_after_stat_error:
  "pageTmplCmd False (testEnv (\<lambda>p. Inl (ErrOther ''input/output error'')))
      \<lparr>pageTmplIn = [], pageTmplOut = [], pageTmplTmplOut = ''out.tmpl'', pageTmplForce = False,
       pageTmplFiles = []\<rparr>
     = \<lparr>status = Exit0, stdout = [], fsops = [OpWriteFile ''out.tmpl'' defaultPageTmpl],
        logs = [LogWroteTmpl ''out.tmpl'']\<rparr>
   \<and> pageTmplCmd False
      ((testEnv (\<lambda>p. Inl (ErrOther ''input/output error'')))
         \<lparr>osWriteFile := (\<lambda>p b. Some (ErrOther ''permission denied''))\<rparr>)
      \<lparr>pageTmplIn = [], pageTmplOut = [], pageTmplTmplOut = ''out.tmpl'', pageTmplForce = False,
       pageTmplFiles = []\<rparr>
     = \<lparr>status = ExitFatal, stdout = [], fsops = [OpWriteFile ''out.tmpl'' defaultPageTmpl],
        logs = [LogFatal (FailErr (ErrOther ''permission denied''))]\<rparr>"
proof -
  let ?E = "testEnv (\<lambda>p. Inl (ErrOther ''input/output error''))"
  let ?F = "?E\<lparr>osWriteFile := (\<lambda>p b. Some (ErrOther ''permission denied''))\<rparr>"
  let ?a = "\<lparr>pageTmplIn = [], pageTmplOut = [], pageTmplTmplOut = ''out.tmpl'',
      pageTmplForce = False, pageTmplFiles = []\<rparr>"
  have n: "pageTmplTmplOut ?a \<noteq> []" by simp
  have sE: "pageTmplForce ?a \<or> osStat ?E (pageTmplTmplOut ?a) = Inl (ErrOther ''input/output error'')"
    by (simp add: osStat_testEnv)
  have sF: "pageTmplForce ?a \<or> osStat ?F (pageTmplTmplOut ?a) = Inl (ErrOther ''input/output error'')"
    by (simp add: osStat_testEnv)
  have wF: "osWriteFile ?F ''out.tmpl'' defaultPageTmpl = Some (ErrOther ''permission denied'')"
    by simp
  from tmplOutBlock_write [OF sE]
  have 1: "tmplOutBlock ?E ?a = success [] [OpWriteFile ''out.tmpl'' defaultPageTmpl]
      [LogWroteTmpl ''out.tmpl'']"
    by (simp add: osWriteFile_testEnv)
  from tmplOutBlock_write [OF sF] wF
  have 2: "tmplOutBlock ?F ?a = fatal [OpWriteFile ''out.tmpl'' defaultPageTmpl] []
      (FailErr (ErrOther ''permission denied''))"
    by simp
  from 1 2 pageTmplCmd_tmplOut [OF n, of False ?E] pageTmplCmd_tmplOut [OF n, of False ?F]
  show ?thesis by (simp add: success_def fatal_def)
qed

text \<open>
  Claim C10 (a failing \<^verbatim>\<open>os.Stat\<close> on the \<^verbatim>\<open>--tmpl-out\<close> path is not
  reported). With \<^verbatim>\<open>--tmpl-out\<close> set and \<^verbatim>\<open>--force\<close> absent, when
  \<^verbatim>\<open>os.Stat\<close> fails with an error other than "not exist", the command does not abort
  with that error: it goes on to write the built-in template, and its outcome is that of
  the write alone.
\<close>

theorem tmplOut_stat_error_ignored:
  assumes "pageTmplTmplOut a \<noteq> []" and "\<not> pageTmplForce a"
    and "osStat ev (pageTmplTmplOut a) = Inl e" and "e \<noteq> ErrNotExist"
  shows "pageTmplCmd vb ev a =
     (case osWriteFile ev (pageTmplTmplOut a) defaultPageTmpl of
        Some e' \<Rightarrow> fatal [OpWriteFile (pageTmplTmplOut a) defaultPageTmpl] [] (FailErr e')
      | None \<Rightarrow> success [] [OpWriteFile (pageTmplTmplOut a) defaultPageTmpl]
          [LogWroteTmpl (pageTmplTmplOut a)])"
proof -
  from assms(3) have "pageTmplForce a \<or> osStat ev (pageTmplTmplOut a) = Inl e" by simp
  from tmplOutBlock_write [OF this] assms(1) show ?thesis
    by (simp add: pageTmplCmd_tmplOut)
qed

theorem tmplOut_stat_error_ignored_witness:
  "pageTmplCmd False (testEnv (\<lambda>p. Inl (ErrOther ''permission denied'')))
      \<lparr>pageTmplIn = [], pageTmplOut = [], pageTmplTmplOut = ''out.tmpl'', pageTmplForce = False,
       pageTmplFiles = []\<rparr>
     = \<lparr>status = Exit0, stdout = [], fsops = [OpWriteFile ''out.tmpl'' defaultPageTmpl],
        logs = [LogWroteTmpl ''out.tmpl'']\<rparr>"
proof -
  let ?E = "testEnv (\<lambda>p. Inl (ErrOther ''permission denied''))"
  let ?a = "\<lparr>pageTmplIn = [], pageTmplOut = [], pageTmplTmplOut = ''out.tmpl'',
      pageTmplForce = False, pageTmplFiles = []\<rparr>"
  have 1: "pageTmplTmplOut ?a \<noteq> []" and 2: "\<not> pageTmplForce ?a" by simp_all
  have 3: "osStat ?E (pageTmplTmplOut ?a) = Inl (ErrOther ''permission denied'')"
    by (simp add: osStat_testEnv)
  have 4: "ErrOther ''permission denied'' \<noteq> ErrNotExist" by simp
  from tmplOut_stat_error_ignored [OF 1 2 3 4, of False] show ?thesis
    by (simp add: osWriteFile_testEnv success_def)
qed

text \<open>The earlier variant does abort on such an error.\<close>

lemma tmplOutBlockEarlier_stat_error:
  "osStat ev p = Inl e \<Longrightarrow> e \<noteq> ErrNotExist \<Longrightarrow>
   tmplOutBlockEarlier ev doc p = fatal [] [] (FailErr e)"
  by (simp add: tmplOutBlockEarlier_def isNotExist_def)

section \<open>Missing and failing input files of \<^verbatim>\<open>page-tmpl\<close>\<close>

lemma pageTmplCmd_loop_fatal:
  "pageTmplTmplOut a = [] \<Longrightarrow> fmapLoop ev (pageTmplFiles a) Map.empty [] = Inl (lg, f) \<Longrightarrow>
   pageTmplCmd vb ev a = fatal [] lg f"
  by (simp add: pageTmplCmd_def)

lemma pageTmplCmd_loop_ok:
  "pageTmplTmplOut a = [] \<Longrightarrow> fmapLoop ev (pageTmplFiles a) Map.empty [] = Inr (m, lg) \<Longrightarrow>
   pageTmplCmd vb ev a = renderPage vb ev a m lg"
  by (simp add: pageTmplCmd_def)

lemma strip_app: "stripSlug ''app-1a2b3c4d.css'' = ''app.css''" by code_simp

lemma base_app: "Base ''app-1a2b3c4d.css'' = ''app-1a2b3c4d.css''" by code_simp

text \<open>
  Claim C5 (missing files are skipped, any other failure is fatal). The loop writes one
  warning for each missing file and nothing else; its result, and the status, standard
  output and file operations of the whole command, are those obtained without the missing
  files. When \<^verbatim>\<open>os.Stat\<close> fails on a file \<open>p\<close> with an error \<open>e\<close> other than
  "not exist" (and on no file before it), the command ends with \<^verbatim>\<open>log.Fatalf\<close> on
  \<open>p\<close> and \<open>e\<close>, having touched no file. One missing and one existing path, in either
  order, give a manifest with exactly the entry of the existing one.
\<close>

theorem missing_skipped_other_fatal:
  "(fmapLoop ev fns m lg = Inr (m', lg') \<longrightarrow>
      lg' = lg @ map LogSkipMissing (filter (missing ev) fns))
   \<and> loopResult (fmapLoop ev fns m lg)
       = loopResult (fmapLoop ev (filter (\<lambda>fn. \<not> missing ev fn) fns) m lg)
   \<and> observable (pageTmplCmd vb ev a)
       = observable (pageTmplCmd vb ev
           (a\<lparr>pageTmplFiles := filter (\<lambda>fn. \<not> missing ev fn) (pageTmplFiles a)\<rparr>))
   \<and> (pageTmplTmplOut a = [] \<and> pageTmplFiles a = pre @ p # post
        \<and> (\<forall>fn \<in> set pre. \<not> statFatal ev fn) \<and> osStat ev p = Inl e \<and> e \<noteq> ErrNotExist \<longrightarrow>
        pageTmplCmd vb ev a
          = \<lparr>status = ExitFatal, stdout = [], fsops = [],
             logs = map LogSkipMissing (filter (missing ev) pre) @ [LogFatal (FailInputFile p e)]\<rparr>)
   \<and> (missing ev x \<and> osStat ev y = Inr t \<longrightarrow>
        fmapLoop ev [x, y] Map.empty []
          = Inr ([stripSlug (Base y) \<mapsto> \<lparr>name = Base y, path = y, modTime = t\<rparr>], [LogSkipMissing x])
        \<and> fmapLoop ev [y, x] Map.empty []
          = Inr ([stripSlug (Base y) \<mapsto> \<lparr>name = Base y, path = y, modTime = t\<rparr>], [LogSkipMissing x]))"
proof (intro conjI impI)
  assume "fmapLoop ev fns m lg = Inr (m', lg')"
  then show "lg' = lg @ map LogSkipMissing (filter (missing ev) fns)"
    by (rule fmapLoop_warnings)
next
  show "loopResult (fmapLoop ev fns m lg)
      = loopResult (fmapLoop ev (filter (\<lambda>fn. \<not> missing ev fn) fns) m lg)"
    by (rule fmapLoop_filter)
next
  show "observable (pageTmplCmd vb ev a)
      = observable (pageTmplCmd vb ev
          (a\<lparr>pageTmplFiles := filter (\<lambda>fn. \<not> missing ev fn) (pageTmplFiles a)\<rparr>))"
    by (rule pageTmplCmd_filter)
next
  assume h: "pageTmplTmplOut a = [] \<and> pageTmplFiles a = pre @ p # post
      \<and> (\<forall>fn \<in> set pre. \<not> statFatal ev fn) \<and> osStat ev p = Inl e \<and> e \<noteq> ErrNotExist"
  then have "fmapLoop ev (pageTmplFiles a) Map.empty []
      = Inl ([] @ map LogSkipMissing (filter (missing ev) pre), FailInputFile p e)"
    using fmapLoop_fatal [of pre ev p e post Map.empty "[]"] by simp
  with h show "pageTmplCmd vb ev a
      = \<lparr>status = ExitFatal, stdout = [], fsops = [],
         logs = map LogSkipMissing (filter (missing ev) pre) @ [LogFatal (FailInputFile p e)]\<rparr>"
    by (simp add: pageTmplCmd_loop_fatal fatal_def)
next
  assume h: "missing ev x \<and> osStat ev y = Inr t"
  then have mx: "missing ev x" and sy: "osStat ev y = Inr t" by simp_all
  from one_missing_one_present(1) [OF mx sy]
  show "fmapLoop ev [x, y] Map.empty []
      = Inr ([stripSlug (Base y) \<mapsto> \<lparr>name = Base y, path = y, modTime = t\<rparr>], [LogSkipMissing x])" .
  from one_missing_one_present(2) [OF mx sy]
  show "fmapLoop ev [y, x] Map.empty []
      = Inr ([stripSlug (Base y) \<mapsto> \<lparr>name = Base y, path = y, modTime = t\<rparr>], [LogSkipMissing x])" .
qed

theorem missing_skipped_other_fatal_witness:
  "fmapLoop (testEnv (statTable [(''app-1a2b3c4d.css'', 3)])) [''gone.css'', ''app-1a2b3c4d.css'']
      Map.empty []
     = Inr ([''app.css'' \<mapsto> \<lparr>name = ''app-1a2b3c4d.css'', path = ''app-1a2b3c4d.css'', modTime = 3\<rparr>],
            [LogSkipMissing ''gone.css''])
   \<and> pageTmplCmd False
        (testEnv (\<lambda>p. if p = ''locked.css'' then Inl (ErrOther ''permission denied'')
                       else statTable [(''app-1a2b3c4d.css'', 3)] p))
        \<lparr>pageTmplIn = [], pageTmplOut = ''index.html'', pageTmplTmplOut = [], pageTmplForce = False,
         pageTmplFiles = [''gone.css'', ''locked.css'', ''app-1a2b3c4d.css'']\<rparr>
     = \<lparr>status = ExitFatal, stdout = [], fsops = [],
        logs = [LogSkipMissing ''gone.css'',
                LogFatal (FailInputFile ''locked.css'' (ErrOther ''permission denied''))]\<rparr>"
proof -
  let ?E = "testEnv (statTable [(''app-1a2b3c4d.css'', 3)])"
  let ?F = "testEnv (\<lambda>p. if p = ''locked.css'' then Inl (ErrOther ''permission denied'')
                       else statTable [(''app-1a2b3c4d.css'', 3)] p)"
  let ?a = "\<lparr>pageTmplIn = [], pageTmplOut = ''index.html'', pageTmplTmplOut = [],
      pageTmplForce = False, pageTmplFiles = [''gone.css'', ''locked.css'', ''app-1a2b3c4d.css'']\<rparr>"
  have m: "missing ?E ''gone.css''"
    by (simp add: missing_def osStat_testEnv statTable_Cons statTable_Nil)
  have s: "osStat ?E ''app-1a2b3c4d.css'' = Inr 3"
    by (simp add: osStat_testEnv statTable_Cons)
  note T1 = missing_skipped_other_fatal [of ?E "[]" Map.empty "[]" Map.empty "[]" False ?a "[]" "[]" "[]"
      ErrNotExist "''gone.css''" "''app-1a2b3c4d.css''" 3]
  note c5 = T1 [THEN conjunct2, THEN conjunct2, THEN conjunct2, THEN conjunct2]
  from mp [OF c5 conjI [OF m s], THEN conjunct1]
  have 1: "fmapLoop ?E [''gone.css'', ''app-1a2b3c4d.css''] Map.empty []
     = Inr ([''app.css'' \<mapsto> \<lparr>name = ''app-1a2b3c4d.css'', path = ''app-1a2b3c4d.css'', modTime = 3\<rparr>],
            [LogSkipMissing ''gone.css''])"
    by (simp only: base_app strip_app)
  have mg: "missing ?F ''gone.css''"
    by (simp add: missing_def osStat_testEnv statTable_Cons statTable_Nil)
  then have pre: "\<forall>fn \<in> set [''gone.css'']. \<not> statFatal ?F fn"
    by (simp add: statFatal_def missing_def)
  have l: "osStat ?F ''locked.css'' = Inl (ErrOther ''permission denied'')"
    by (simp add: osStat_testEnv)
  have f: "pageTmplFiles ?a = [''gone.css''] @ ''locked.css'' # [''app-1a2b3c4d.css'']" by simp
  have t: "pageTmplTmplOut ?a = []" by simp
  note T2 = missing_skipped_other_fatal [of ?F "[]" Map.empty "[]" Map.empty "[]" False ?a "[''gone.css'']"
      "''locked.css''" "[''app-1a2b3c4d.css'']" "ErrOther ''permission denied''" "[]" "[]" 0]
  note c4 = T2 [THEN conjunct2, THEN conjunct2, THEN conjunct2, THEN conjunct1]
  have ne: "ErrOther ''permission denied'' \<noteq> ErrNotExist" by simp
  have fm: "filter (missing ?F) [''gone.css''] = [''gone.css'']" using mg by simp
  from mp [OF c4 conjI [OF t conjI [OF f conjI [OF pre conjI [OF l ne]]]]]
  have 2: "pageTmplCmd False ?F ?a
     = \<lparr>status = ExitFatal, stdout = [], fsops = [],
        logs = [LogSkipMissing ''gone.css'',
                LogFatal (FailInputFile ''locked.css'' (ErrOther ''permission denied''))]\<rparr>"
    by (simp only: fm list.map append.simps)
  from 1 2 show ?thesis by simp
qed

section \<open>The built-in template\<close>

lemma undefined_default: "undefinedFunc funcMapNames defaultPageTmpl = Some ''FileNameListForExt''"
  by code_simp

lemma tmplParse_default:
  "tmplParse ev funcMapNames defaultPageTmpl = Inl ''function not defined: FileNameListForExt''"
  by (simp add: tmplParse_def undefined_default)

lemma renderPage_default:
  "pageTmplIn a = [] \<Longrightarrow>
   renderPage vb ev a m lg0 =
     fatal [] ((if vb then lg0 @ [LogFmap m] else lg0) @ [LogNoIn])
       (FailTmpl ''function not defined: FileNameListForExt'')"
  by (simp add: renderPage_def tmplParse_default)

text \<open>With \<^verbatim>\<open>--in\<close> and \<^verbatim>\<open>--tmpl-out\<close> unset the command never gets past
  \<^verbatim>\<open>Parse\<close>, whatever the files are.\<close>

lemma default_template_always_fatal:
  assumes "pageTmplTmplOut a = []" and "pageTmplIn a = []"
  shows "observable (pageTmplCmd vb ev a) = (ExitFatal, [], [])"
proof (cases "fmapLoop ev (pageTmplFiles a) Map.empty []")
  case (Inl x)
  then obtain lg f where "fmapLoop ev (pageTmplFiles a) Map.empty [] = Inl (lg, f)"
    by (cases x) simp
  from pageTmplCmd_loop_fatal [OF assms(1) this] show ?thesis
    by (simp add: observable_simps)
next
  case (Inr x)
  then obtain m lg where "fmapLoop ev (pageTmplFiles a) Map.empty [] = Inr (m, lg)"
    by (cases x) simp
  from pageTmplCmd_loop_ok [OF assms(1) this] renderPage_default [OF assms(2)]
  show ?thesis by (simp add: observable_simps)
qed

text \<open>
  Claim C8 (rendering with the built-in template): what the code does on the input of the
  claim. With \<^verbatim>\<open>--in\<close> unset and the two files \<open>style-deadbeef.css\<close> and
  \<open>index-cafe1234.js\<close> present, the command ends with \<^verbatim>\<open>log.Fatal\<close>: the built-in
  template calls \<^verbatim>\<open>FileNameListForExt\<close>, a function that the \<^verbatim>\<open>FuncMap\<close> does
  not bind, so \<^verbatim>\<open>Parse\<close> fails and no page is written, whatever \<^verbatim>\<open>--out\<close>,
  \<^verbatim>\<open>--force\<close> and \<^verbatim>\<open>--verbose\<close> are.
\<close>

theorem default_template_rejected:
  assumes "osStat ev ''style-deadbeef.css'' = Inr t1" and "osStat ev ''index-cafe1234.js'' = Inr t2"
  shows "status (main ev \<lparr>verbose = vb, cmd = CmdPageTmpl
             \<lparr>pageTmplIn = [], pageTmplOut = out, pageTmplTmplOut = [], pageTmplForce = force,
              pageTmplFiles = [''style-deadbeef.css'', ''index-cafe1234.js'']\<rparr>\<rparr>) = ExitFatal
       \<and> fsops (main ev \<lparr>verbose = vb, cmd = CmdPageTmpl
             \<lparr>pageTmplIn = [], pageTmplOut = out, pageTmplTmplOut = [], pageTmplForce = force,
              pageTmplFiles = [''style-deadbeef.css'', ''index-cafe1234.js'']\<rparr>\<rparr>) = []
       \<and> last (logs (main ev \<lparr>verbose = vb, cmd = CmdPageTmpl
             \<lparr>pageTmplIn = [], pageTmplOut = out, pageTmplTmplOut = [], pageTmplForce = force,
              pageTmplFiles = [''style-deadbeef.css'', ''index-cafe1234.js'']\<rparr>\<rparr>))
           = LogFatal (FailTmpl ''function not defined: FileNameListForExt'')"
proof -
  let ?a = "\<lparr>pageTmplIn = [], pageTmplOut = out, pageTmplTmplOut = [], pageTmplForce = force,
      pageTmplFiles = [''style-deadbeef.css'', ''index-cafe1234.js'']\<rparr>"
  let ?m = "feed ''index-cafe1234.js'' t2 (feed ''style-deadbeef.css'' t1 Map.empty)"
  have t: "pageTmplTmplOut ?a = []" and i: "pageTmplIn ?a = []" by simp_all
  have "fmapLoop ev (pageTmplFiles ?a) Map.empty [] = Inr (?m, [])"
    using assms by simp
  from pageTmplCmd_loop_ok [OF t this]
  have "pageTmplCmd vb ev ?a = renderPage vb ev ?a ?m []" .
  also from renderPage_default [OF i]
  have "\<dots> = fatal [] ((if vb then [] @ [LogFmap ?m] else []) @ [LogNoIn])
      (FailTmpl ''function not defined: FileNameListForExt'')" .
  finally have "main ev \<lparr>verbose = vb, cmd = CmdPageTmpl ?a\<rparr>
      = fatal [] ((if vb then [] @ [LogFmap ?m] else []) @ [LogNoIn])
          (FailTmpl ''function not defined: FileNameListForExt'')"
    by (simp add: main_def)
  then show ?thesis by (simp add: fatal_def)
qed

theorem default_template_rejected_witness:
  "status (main (testEnv (statTable [(''style-deadbeef.css'', 1), (''index-cafe1234.js'', 2)]))
      \<lparr>verbose = False, cmd = CmdPageTmpl
        \<lparr>pageTmplIn = [], pageTmplOut = ''index.html'', pageTmplTmplOut = [], pageTmplForce = False,
         pageTmplFiles = [''style-deadbeef.css'', ''index-cafe1234.js'']\<rparr>\<rparr>) = ExitFatal
   \<and> fsops (main (testEnv (statTable [(''style-deadbeef.css'', 1), (''index-cafe1234.js'', 2)]))
      \<lparr>verbose = False, cmd = CmdPageTmpl
        \<lparr>pageTmplIn = [], pageTmplOut = ''index.html'', pageTmplTmplOut = [], pageTmplForce = False,
         pageTmplFiles = [''style-deadbeef.css'', ''index-cafe1234.js'']\<rparr>\<rparr>) = []
   \<and> last (logs (main (testEnv (statTable [(''style-deadbeef.css'', 1), (''index-cafe1234.js'', 2)]))
      \<lparr>verbose = False, cmd = CmdPageTmpl
        \<lparr>pageTmplIn = [], pageTmplOut = ''index.html'', pageTmplTmplOut = [], pageTmplForce = False,
         pageTmplFiles = [''style-deadbeef.css'', ''index-cafe1234.js'']\<rparr>\<rparr>))
       = LogFatal (FailTmpl ''function not defined: FileNameListForExt'')"
proof -
  have d: "''style-deadbeef.css'' \<noteq> ''index-cafe1234.js''" by simp
  note s1 = statTable_two(1) [OF d, of 1 2]
  note s2 = statTable_two(2) [OF d, of 1 2]
  from default_template_rejected [OF s1 s2] show ?thesis .
qed

section \<open>The \<^verbatim>\<open>--verbose\<close> flag\<close>

lemma quiet_map_skip:
  "filter (\<lambda>l. \<not> verboseLine l) (map LogSkipMissing xs) = map LogSkipMissing xs"
  by (induction xs) (simp_all add: verboseLine_simps)

lemma quiet_map_event:
  "filter (\<lambda>l. \<not> verboseLine l) (map LogEvent xs) = map LogEvent xs"
  by (induction xs) (simp_all add: verboseLine_simps)

lemma fmapLoop_quiet:
  "filter (\<lambda>l. \<not> verboseLine l) lg = lg \<Longrightarrow>
   (case fmapLoop ev fns m lg of
      Inl (lg', f) \<Rightarrow> filter (\<lambda>l. \<not> verboseLine l) lg' = lg'
    | Inr (m', lg') \<Rightarrow> filter (\<lambda>l. \<not> verboseLine l) lg' = lg')"
proof (induction fns arbitrary: m lg)
  case Nil
  then show ?case by simp
next
  case (Cons fn fns)
  show ?case
  proof (cases "osStat ev fn")
    case (Inl e)
    from Cons.prems have "filter (\<lambda>l. \<not> verboseLine l) (lg @ [LogSkipMissing fn]) = lg @ [LogSkipMissing fn]"
      by (simp add: verboseLine_simps)
    from Cons.IH [OF this, of m] Inl Cons.prems show ?thesis by simp
  next
    case (Inr mt)
    with Cons.IH [OF Cons.prems, of "feed fn mt m"] show ?thesis by simp
  qed
qed

lemma render_logs_verbose:
  assumes a: "s_fmap s1 = s_fmap s2" "s_pageBaseName s1 = s_pageBaseName s2"
    and b: "filter (\<lambda>l. \<not> verboseLine l) (s_log s1) = s_log s2"
    and c: "filter (\<lambda>l. \<not> verboseLine l) (s_log s2) = s_log s2"
  shows "filter (\<lambda>l. \<not> verboseLine l) (logs (render True ev a s1 p)) = logs (render False ev a s2 p)"
proof -
  from b c have "filter (\<lambda>l. \<not> verboseLine l) (s_log s1) = filter (\<lambda>l. \<not> verboseLine l) (s_log s2)"
    by simp
  from render_logs [OF a this, of True ev a p False] render_logs_quiet [OF c, of ev a p]
  show ?thesis by simp
qed

lemma renderPage_logs:
  assumes "filter (\<lambda>l. \<not> verboseLine l) lg0 = lg0"
  shows "filter (\<lambda>l. \<not> verboseLine l) (logs (renderPage True ev a m lg0))
       = logs (renderPage False ev a m lg0)"
  using assms
  by (auto simp: renderPage_def Let_def logs_simps verboseLine_simps
      intro!: render_logs_verbose split: sum.splits)

lemma pageTmplCmd_verbose:
  "observable (pageTmplCmd True ev a) = observable (pageTmplCmd False ev a)
   \<and> filter (\<lambda>l. \<not> verboseLine l) (logs (pageTmplCmd True ev a)) = logs (pageTmplCmd False ev a)"
proof (cases "pageTmplTmplOut a = []")
  case False
  then show ?thesis
    by (simp add: pageTmplCmd_def tmplOutBlock_def Let_def isNotExist_def logs_simps verboseLine_simps
        split: option.splits)
next
  case True
  have q: "case fmapLoop ev (pageTmplFiles a) Map.empty [] of
      Inl (lg', f) \<Rightarrow> filter (\<lambda>l. \<not> verboseLine l) lg' = lg'
    | Inr (m', lg') \<Rightarrow> filter (\<lambda>l. \<not> verboseLine l) lg' = lg'"
    by (rule fmapLoop_quiet) simp
  show ?thesis
  proof (cases "fmapLoop ev (pageTmplFiles a) Map.empty []")
    case (Inl x)
    then obtain lg f where l: "fmapLoop ev (pageTmplFiles a) Map.empty [] = Inl (lg, f)"
      by (cases x) simp
    with q have "filter (\<lambda>l. \<not> verboseLine l) lg = lg" by simp
    with True l show ?thesis by (simp add: pageTmplCmd_def logs_simps verboseLine_simps)
  next
    case (Inr x)
    then obtain m lg where l: "fmapLoop ev (pageTmplFiles a) Map.empty [] = Inr (m, lg)"
      by (cases x) simp
    with q have "filter (\<lambda>l. \<not> verboseLine l) lg = lg" by simp
    from renderPage_logs [OF this, of ev a m] renderPage_observable [of True ev a m lg False lg]
      True l
    show ?thesis by (simp add: pageTmplCmd_def)
  qed
qed

text \<open>A run of \<^verbatim>\<open>page-tmpl\<close> in the environment \<open>demoEnv\<close> under
  \<^verbatim>\<open>--verbose\<close>: the page is written and the log holds the dump of the map and the
  line of the one \<open>FileName\<close> call.\<close>

lemma demo_base: "Base ''public/app-1a2b3c4d.css'' = ''app-1a2b3c4d.css''" by code_simp

lemma demo_undefined: "undefinedFunc funcMapNames demoDoc = None" by code_simp

lemma demo_fields:
  "osStat demoEnv ''public/app-1a2b3c4d.css'' = Inr 3"
  "osReadFile demoEnv ''page.tmpl'' = Inr demoDoc"
  "tmplEngine demoEnv demoDoc = Inr (TFileName [''app'', ''.css''] (\<lambda>r. TDone (TOut r)))"
  "osWriteFile demoEnv p b = None"
  by (simp_all add: demoEnv_def statTable_Cons)

lemma demo_loop:
  "fmapLoop demoEnv (pageTmplFiles demoArgs) Map.empty []
     = Inr ([''app.css'' \<mapsto> \<lparr>name = ''app-1a2b3c4d.css'', path = ''public/app-1a2b3c4d.css'',
              modTime = 3\<rparr>], [])"
proof -
  have "feed ''public/app-1a2b3c4d.css'' 3 Map.empty
      = [''app.css'' \<mapsto> \<lparr>name = ''app-1a2b3c4d.css'', path = ''public/app-1a2b3c4d.css'',
              modTime = 3\<rparr>]"
    by (simp only: feed_empty demo_base strip_app)
  then show ?thesis by (simp add: demoArgs_def demo_fields)
qed

lemma demo_parse:
  "tmplParse demoEnv funcMapNames demoDoc = Inr (TFileName [''app'', ''.css''] (\<lambda>r. TDone (TOut r)))"
  by (simp add: tmplParse_def demo_undefined demo_fields)

lemma demo_verbose_run:
  "main demoEnv \<lparr>verbose = True, cmd = CmdPageTmpl demoArgs\<rparr>
     = \<lparr>status = Exit0, stdout = [], fsops = [OpWriteFile ''index.html'' ''app-1a2b3c4d.css''],
        logs = [LogFmap [''app.css'' \<mapsto> \<lparr>name = ''app-1a2b3c4d.css'',
                   path = ''public/app-1a2b3c4d.css'', modTime = 3\<rparr>],
                LogFileName ''app.css'' ''app-1a2b3c4d.css'']\<rparr>"
proof -
  let ?m = "[''app.css'' \<mapsto> \<lparr>name = ''app-1a2b3c4d.css'', path = ''public/app-1a2b3c4d.css'',
              modTime = 3\<rparr>]"
  have t: "pageTmplTmplOut demoArgs = []" and i: "pageTmplIn demoArgs = ''page.tmpl''"
    and out: "pageTmplOut demoArgs = ''index.html''"
    by (simp_all add: demoArgs_def)
  have "pageTmplCmd True demoEnv demoArgs = renderPage True demoEnv demoArgs ?m []"
    using t demo_loop by (rule pageTmplCmd_loop_ok)
  also have "\<dots> = render True demoEnv demoArgs
      \<lparr>s_fmap = ?m, s_pageBaseName = TrimSuffix (Base ''page.tmpl'') (Ext ''page.tmpl''),
       s_log = [LogFmap ?m]\<rparr> (TFileName [''app'', ''.css''] (\<lambda>r. TDone (TOut r)))"
    by (simp add: renderPage_def i demo_fields demo_parse)
  also have "\<dots> = success [] [OpWriteFile ''index.html'' ''app-1a2b3c4d.css'']
      [LogFmap ?m, LogFileName ''app.css'' ''app-1a2b3c4d.css'']"
  proof -
    let ?s = "\<lparr>s_fmap = ?m, s_pageBaseName = TrimSuffix (Base ''page.tmpl'') (Ext ''page.tmpl''),
       s_log = [LogFmap ?m]\<rparr>"
    have "FileName True [''app'', ''.css''] ?s
        = (''app-1a2b3c4d.css'', ?s\<lparr>s_log := [LogFmap ?m, LogFileName ''app.css'' ''app-1a2b3c4d.css'']\<rparr>)"
      by (simp add: FileName_def Let_def)
    then have "execT True (TFileName [''app'', ''.css''] (\<lambda>r. TDone (TOut r))) ?s
        = (TOut ''app-1a2b3c4d.css'',
           ?s\<lparr>s_log := [LogFmap ?m, LogFileName ''app.css'' ''app-1a2b3c4d.css'']\<rparr>)"
      by simp
    then show ?thesis by (simp add: render_def out demo_fields)
  qed
  finally show ?thesis by (simp add: main_def success_def)
qed

text \<open>
  Claim C9 (\<^verbatim>\<open>--verbose\<close> does not interfere). Two invocations that differ only in
  \<^verbatim>\<open>--verbose\<close> end with the same status, print the same standard output and perform
  the same file operations; the log of the run without the flag is the log of the run
  with it, less the dump of the map and the lines of the lookup functions.
\<close>

theorem verbose_noninterference:
  "observable (main ev (args\<lparr>verbose := True\<rparr>)) = observable (main ev (args\<lparr>verbose := False\<rparr>))
   \<and> filter (\<lambda>l. \<not> verboseLine l) (logs (main ev (args\<lparr>verbose := True\<rparr>)))
       = logs (main ev (args\<lparr>verbose := False\<rparr>))"
proof (cases "cmd args")
  case (CmdHash hashIn)
  then show ?thesis
    by (simp add: main_def hashCmd_def logs_simps verboseLine_simps split: sum.splits)
next
  case (CmdHashRename i out)
  then show ?thesis
    by (simp add: main_def hashRenameCmd_def Let_def logs_simps verboseLine_simps
        split: sum.splits option.splits)
next
  case (CmdWatch dirs)
  then show ?thesis
    by (simp add: main_def watchCmd_def logs_simps verboseLine_simps quiet_map_event
        split: watchres.splits)
next
  case (CmdPageTmpl a)
  with pageTmplCmd_verbose [of ev a] show ?thesis by (simp add: main_def)
next
  case CmdNone
  then show ?thesis by (simp add: main_def logs_simps verboseLine_simps)
qed

text \<open>The same run without \<^verbatim>\<open>--verbose\<close> writes the same page and logs nothing.\<close>

theorem verbose_noninterference_witness:
  "main demoEnv \<lparr>verbose = True, cmd = CmdPageTmpl demoArgs\<rparr>
     = \<lparr>status = Exit0, stdout = [], fsops = [OpWriteFile ''index.html'' ''app-1a2b3c4d.css''],
        logs = [LogFmap [''app.css'' \<mapsto> \<lparr>name = ''app-1a2b3c4d.css'',
                   path = ''public/app-1a2b3c4d.css'', modTime = 3\<rparr>],
                LogFileName ''app.css'' ''app-1a2b3c4d.css'']\<rparr>
   \<and> main demoEnv \<lparr>verbose = False, cmd = CmdPageTmpl demoArgs\<rparr>
     = \<lparr>status = Exit0, stdout = [], fsops = [OpWriteFile ''index.html'' ''app-1a2b3c4d.css''],
        logs = []\<rparr>"
proof -
  let ?v = "main demoEnv \<lparr>verbose = True, cmd = CmdPageTmpl demoArgs\<rparr>"
  let ?q = "main demoEnv \<lparr>verbose = False, cmd = CmdPageTmpl demoArgs\<rparr>"
  note T = verbose_noninterference [of demoEnv "\<lparr>verbose = True, cmd = CmdPageTmpl demoArgs\<rparr>"]
  from T have o: "observable ?v = observable ?q" by simp
  from T have l: "filter (\<lambda>l. \<not> verboseLine l) (logs ?v) = logs ?q" by simp
  from o have "status ?q = Exit0" and "stdout ?q = []"
    and "fsops ?q = [OpWriteFile ''index.html'' ''app-1a2b3c4d.css'']"
    by (simp_all add: observable_def demo_verbose_run)
  moreover from l have "logs ?q = []"
    by (simp add: demo_verbose_run verboseLine_simps)
  ultimately have "?q = \<lparr>status = Exit0, stdout = [],
      fsops = [OpWriteFile ''index.html'' ''app-1a2b3c4d.css''], logs = []\<rparr>"
    by (cases ?q) simp
  with demo_verbose_run show ?thesis by simp
qed

end
